theory Spec2Isabelle
  imports Main
begin

section \<open>Batched nested-relation loading (connection\_field.py)\<close>

text \<open>
  A shallow embedding of \<^verbatim>\<open>graphene_sqlalchemy_filter/connection_field.py\<close>:
  the class \<^verbatim>\<open>ModelLoader\<close> (constructor, \<^verbatim>\<open>batch_load_fn\<close>,
  \<^verbatim>\<open>_get_model_pk_field_name\<close>, \<^verbatim>\<open>_get_filter_set\<close>, \<^verbatim>\<open>_get_query\<close>) and the class
  \<^verbatim>\<open>NestedFilterableConnectionField\<close> (\<^verbatim>\<open>_get_or_create_data_loader\<close>,
  \<^verbatim>\<open>connection_resolver\<close>). A leading underscore of a Python name is dropped, since an
  Isabelle name cannot start with one.

  Exceptions are values of the type \<open>error\<close>; a function that can raise returns
  \<open>error + 'a\<close>. Mutation of the request context, of the loader objects and of the
  database session is explicit state passing over the record \<open>request_state\<close>.
\<close>

subsection \<open>Python values and errors\<close>

text \<open>
  The values the request arguments (\<^verbatim>\<open>graphql_args\<close>, \<^verbatim>\<open>kwargs\<close>) can hold.
  \<open>PyEnum v\<close> is an object with an attribute \<^verbatim>\<open>.value\<close> equal to \<open>v\<close> (a sort directive).
\<close>

datatype py_value =
    PyNone
  | PyBool bool
  | PyInt int
  | PyStr string
  | PyList "py_value list"
  | PyDict "(string \<times> py_value) list"
  | PyEnum string

text \<open>Python truthiness, as tested by \<^verbatim>\<open>if request_filters:\<close> and \<^verbatim>\<open>if sort and ...\<close>.\<close>

fun truthy :: "py_value \<Rightarrow> bool" where
  "truthy PyNone = False"
| "truthy (PyBool b) = b"
| "truthy (PyInt i) = (i \<noteq> 0)"
| "truthy (PyStr s) = (s \<noteq> [])"
| "truthy (PyList xs) = (xs \<noteq> [])"
| "truthy (PyDict kvs) = (kvs \<noteq> [])"
| "truthy (PyEnum v) = True"

text \<open>\<^verbatim>\<open>isinstance(sort, list)\<close>.\<close>

fun isinstance_list :: "py_value \<Rightarrow> bool" where
  "isinstance_list (PyList xs) = True"
| "isinstance_list v = False"

text \<open>
  \<open>ModelNotSupported n m\<close> is the exception of that name, raised with the number \<open>n\<close> of
  primary keys found and the model \<open>m\<close> (its name). \<open>AttributeError\<close> and \<open>KeyError\<close> are
  Python's. \<open>Failure msg\<close> is an error raised by a collaborator outside this module
  (the filter set, the database).
\<close>

datatype error =
    ModelNotSupported nat string
  | AttributeError
  | KeyError
  | Failure string

text \<open>\<^verbatim>\<open>dict.get(key)\<close>: \<^verbatim>\<open>None\<close> when the key is missing.\<close>

definition dict_get :: "(string \<rightharpoonup> py_value) \<Rightarrow> string \<Rightarrow> py_value" where
  "dict_get d k = (case d k of None \<Rightarrow> PyNone | Some v \<Rightarrow> v)"

subsection \<open>SQLAlchemy models, ORM objects and queries\<close>

text \<open>
  A mapped class: its name and its attributes in declaration order. A column carries its
  \<^verbatim>\<open>primary_key\<close> flag, a relationship the name of the target model.
\<close>

datatype class_attr = Column_attr bool | Relationship_attr string

record model_class =
  model_name :: string
  class_attrs :: "(string \<times> class_attr) list"

text \<open>\<^verbatim>\<open>inspection.inspect(model).columns.items()\<close>: the columns with their flag.\<close>

fun columns_items :: "(string \<times> class_attr) list \<Rightarrow> (string \<times> bool) list" where
  "columns_items [] = []"
| "columns_items ((n, Column_attr pk) # rest) = (n, pk) # columns_items rest"
| "columns_items ((n, Relationship_attr t) # rest) = columns_items rest"

text \<open>\<^verbatim>\<open>getattr(model, name)\<close> on the class: raises when there is no such attribute.\<close>

definition getattr_class :: "model_class \<Rightarrow> string \<Rightarrow> error + class_attr" where
  "getattr_class m n =
     (case map_of (class_attrs m) n of None \<Rightarrow> Inl AttributeError | Some a \<Rightarrow> Inr a)"

text \<open>
  An ORM object: its class, the values of its column attributes and the collections of
  its relationship attributes. \<open>'k\<close> is the type of column values (the load keys),
  \<open>'c\<close> the type of related child rows.
\<close>

record ('k, 'c) orm_object =
  obj_type :: model_class
  obj_columns :: "string \<rightharpoonup> 'k"
  obj_relations :: "string \<rightharpoonup> 'c list"

definition getattr_column :: "('k, 'c) orm_object \<Rightarrow> string \<Rightarrow> error + 'k" where
  "getattr_column obj n =
     (case obj_columns obj n of None \<Rightarrow> Inl AttributeError | Some v \<Rightarrow> Inr v)"

definition getattr_relation :: "('k, 'c) orm_object \<Rightarrow> string \<Rightarrow> error + 'c list" where
  "getattr_relation obj n =
     (case obj_relations obj n of None \<Rightarrow> Inl AttributeError | Some v \<Rightarrow> Inr v)"

text \<open>
  The query objects the module builds, as terms; building a query does not run it.
  \<^item> \<open>Base_query m\<close>: \<^verbatim>\<open>graphene_sqlalchemy.get_query(m, context)\<close>;
  \<^item> \<open>Where c q\<close>: a refinement of \<open>q\<close> by a criterion, as a filter set produces;
  \<^item> \<open>Order_by vs q\<close>: \<^verbatim>\<open>q.order_by(*vs)\<close>;
  \<^item> \<open>Join_eager p m q rel pk\<close>: \<^verbatim>\<open>aliased_model = aliased(m, q.subquery())\<close> and then
    \<^verbatim>\<open>p.join(aliased_model, rel).options(contains_eager(rel, alias=aliased_model),
    Load(parent_model).load_only(pk))\<close>;
  \<^item> \<open>Filter_in q pk keys\<close>: \<^verbatim>\<open>q.filter(getattr(parent_model, pk).in_(keys))\<close>.
\<close>

datatype 'k query =
    Base_query model_class
  | Where string "'k query"
  | Order_by "string list" "'k query"
  | Join_eager "'k query" model_class "'k query" class_attr string
  | Filter_in "'k query" string "'k list"

subsection \<open>Resolve info\<close>

text \<open>
  A segment of \<^verbatim>\<open>info.path\<close> is a field name (a \<^verbatim>\<open>str\<close>) or a list index (an \<^verbatim>\<open>int\<close>).
\<close>

datatype path_segment = PStr string | PInt int

text \<open>
  The parts of \<^verbatim>\<open>ResolveInfo\<close> the module reads: \<^verbatim>\<open>info.field_name\<close>, \<^verbatim>\<open>info.path\<close>,
  \<^verbatim>\<open>info.field_asts[0].name.value\<close>, and \<^verbatim>\<open>info.parent_type.fields\<close>, which gives for a
  field name the field's arguments, each with the \<^verbatim>\<open>graphene_type\<close> of its type (a
  filter set, by name). \<^verbatim>\<open>info.context\<close> is the request context; it lives in the
  request state below.
\<close>

record resolve_info =
  field_name :: string
  path :: "path_segment list"
  field_ast_name :: string
  parent_type_fields :: "(string \<times> (string \<times> string) list) list"

subsection \<open>Collaborators outside the module\<close>

text \<open>
  Three functions the module calls belong to other modules and are parameters here:
  \<^item> \<open>to_snake_case\<close>: \<^verbatim>\<open>graphene.utils.str_converters.to_snake_case\<close>;
  \<^item> \<open>filter_set_filter fs info query request_filters\<close>:
    \<^verbatim>\<open>FilterSet.filter(info, query, request_filters)\<close> of the filter set \<open>fs\<close>;
    it returns the refined query or raises;
  \<^item> \<open>run_query q\<close>: iterating over the query \<open>q\<close>, which runs it against the
    database and yields the ORM objects, or raises.
\<close>

record ('k, 'c) env =
  to_snake_case :: "string \<Rightarrow> string"
  filter_set_filter :: "string \<Rightarrow> resolve_info \<Rightarrow> 'k query \<Rightarrow> py_value \<Rightarrow> error + 'k query"
  run_query :: "'k query \<Rightarrow> error + ('k, 'c) orm_object list"

subsection \<open>ModelLoader\<close>

definition DEFAULT_FILTER_ARG :: string where
  "DEFAULT_FILTER_ARG = ''filters''"

text \<open>The class attribute \<^verbatim>\<open>ModelLoader.filter_arg\<close>.\<close>

definition filter_arg :: string where
  "filter_arg = DEFAULT_FILTER_ARG"

text \<open>
  The attributes \<^verbatim>\<open>__init__\<close> sets. \<open>queue\<close> is the state of the base class
  \<^verbatim>\<open>promise.dataloader.DataLoader\<close>: the keys submitted and not yet dispatched.
\<close>

record 'k model_loader =
  info :: resolve_info
  graphql_args :: "string \<rightharpoonup> py_value"
  model :: model_class
  parent_model :: model_class
  parent_model_pk_field :: string
  model_relation_field :: string
  relation :: class_attr
  queue :: "'k list"

text \<open>
  \<^verbatim>\<open>_get_model_pk_field_name\<close>: the names of the columns flagged \<^verbatim>\<open>primary_key\<close>, in
  order; \<^verbatim>\<open>ModelNotSupported\<close> unless there is exactly one.
\<close>

definition model_pk_fields :: "model_class \<Rightarrow> string list" where
  "model_pk_fields m = map fst (filter snd (columns_items (class_attrs m)))"

definition get_model_pk_field_name :: "model_class \<Rightarrow> error + string" where
  "get_model_pk_field_name m =
     (let model_pk_fields = model_pk_fields m in
      if length model_pk_fields \<noteq> 1
      then Inl (ModelNotSupported (length model_pk_fields) (model_name m))
      else Inr (hd model_pk_fields))"

text \<open>
  \<^verbatim>\<open>ModelLoader.__init__(parent_model, model, info, graphql_args)\<close>. It reads no
  request state and runs no query: it is a pure function of its arguments.
\<close>

definition ModelLoader_init ::
  "('k, 'c) env \<Rightarrow> model_class \<Rightarrow> model_class \<Rightarrow> resolve_info \<Rightarrow> (string \<rightharpoonup> py_value)
   \<Rightarrow> error + 'k model_loader" where
  "ModelLoader_init ev pm m i args =
     (case get_model_pk_field_name pm of
        Inl e \<Rightarrow> Inl e
      | Inr pk \<Rightarrow>
          (let rf = to_snake_case ev (field_name i) in
           case getattr_class pm rf of
             Inl e \<Rightarrow> Inl e
           | Inr rel \<Rightarrow>
               Inr \<lparr> info = i, graphql_args = args, model = m, parent_model = pm,
                     parent_model_pk_field = pk, model_relation_field = rf,
                     relation = rel, queue = [] \<rparr>))"

text \<open>\<^verbatim>\<open>parent_model_object_to_key\<close>.\<close>

definition parent_model_object_to_key ::
  "'k model_loader \<Rightarrow> ('k, 'c) orm_object \<Rightarrow> error + 'k" where
  "parent_model_object_to_key L parent_object =
     getattr_column parent_object (parent_model_pk_field L)"

text \<open>
  \<^verbatim>\<open>_get_filter_set\<close>: \<^verbatim>\<open>info.parent_type.fields.get(field_name)\<close> is \<^verbatim>\<open>None\<close> for an
  unknown field, and reading \<^verbatim>\<open>.args\<close> of it raises \<^verbatim>\<open>AttributeError\<close>;
  \<^verbatim>\<open>schema_field.args[cls.filter_arg]\<close> raises \<^verbatim>\<open>KeyError\<close> for a missing argument.
\<close>

definition get_filter_set :: "resolve_info \<Rightarrow> error + string" where
  "get_filter_set i =
     (case map_of (parent_type_fields i) (field_ast_name i) of
        None \<Rightarrow> Inl AttributeError
      | Some schema_field_args \<Rightarrow>
          (case map_of schema_field_args filter_arg of
             None \<Rightarrow> Inl KeyError
           | Some filters \<Rightarrow> Inr filters))"

text \<open>\<^verbatim>\<open>(col.value for col in sort)\<close>: every element must have a \<^verbatim>\<open>.value\<close>.\<close>

fun sort_values :: "py_value list \<Rightarrow> error + string list" where
  "sort_values [] = Inr []"
| "sort_values (PyEnum v # cols) =
     (case sort_values cols of Inl e \<Rightarrow> Inl e | Inr vs \<Rightarrow> Inr (v # vs))"
| "sort_values (c # cols) = Inl AttributeError"

text \<open>The elements of a list value (used only under \<^verbatim>\<open>isinstance(sort, list)\<close>).\<close>

fun list_items :: "py_value \<Rightarrow> py_value list" where
  "list_items (PyList xs) = xs"
| "list_items v = []"

text \<open>
  \<^verbatim>\<open>_get_query\<close>, in the order of the source: the child query, the filter stage, the
  sort stage, the join with the parent. The calls of the join stage are recorded as the
  term \<open>Join_eager\<close>; whether SQLAlchemy accepts the join (it raises for a relation
  that does not lead to the model) is not decided here, so a result \<open>Inr q\<close> says which
  stages were applied and that the filter and the sort stage did not raise.
\<close>

definition get_query :: "('k, 'c) env \<Rightarrow> 'k model_loader \<Rightarrow> error + 'k query" where
  "get_query ev L =
     (let subquery = Base_query (model L);
          request_filters = dict_get (graphql_args L) filter_arg
      in case (if truthy request_filters
               then (case get_filter_set (info L) of
                       Inl e \<Rightarrow> Inl e
                     | Inr filter_set \<Rightarrow>
                         filter_set_filter ev filter_set (info L) subquery request_filters)
               else Inr subquery) of
           Inl e \<Rightarrow> Inl e
         | Inr subquery \<Rightarrow>
             (let sort = dict_get (graphql_args L) ''sort''
              in case (if truthy sort \<and> isinstance_list sort
                       then (case sort_values (list_items sort) of
                               Inl e \<Rightarrow> Inl e
                             | Inr vs \<Rightarrow> Inr (Order_by vs subquery))
                       else Inr subquery) of
                   Inl e \<Rightarrow> Inl e
                 | Inr subquery \<Rightarrow>
                     Inr (Join_eager (Base_query (parent_model L)) (model L) subquery
                            (relation L) (parent_model_pk_field L))))"

subsection \<open>Request state\<close>

text \<open>
  One request: its context, the loader objects alive in it, and the queries run so far.
  \<^item> \<open>ctx_is_dict\<close>: \<^verbatim>\<open>isinstance(context, dict)\<close>;
  \<^item> \<open>ctx_accepts_setattr\<close>: whether \<^verbatim>\<open>setattr(context, name, value)\<close> succeeds
    for a new attribute; it raises \<^verbatim>\<open>AttributeError\<close> on \<^verbatim>\<open>None\<close> (the context of a
    request that was given none), on \<^verbatim>\<open>object()\<close> and on an instance of a class with
    \<^verbatim>\<open>__slots__\<close>; it plays no role for a dict context;
  \<^item> \<open>ctx_slots\<close>: the items of a dict context, or the attributes of an object
    context, that hold a loader registry; a registry maps the tuple of the string
    path segments to a loader, by reference;
  \<^item> \<open>loaders\<close>: the store of loader objects, by reference; \<open>next_ref\<close>: the next
    unused reference;
  \<^item> \<open>executed\<close>: the queries run against the database, oldest first.
\<close>

record 'k request_state =
  ctx_is_dict :: bool
  ctx_accepts_setattr :: bool
  ctx_slots :: "string \<rightharpoonup> (string list \<rightharpoonup> nat)"
  loaders :: "nat \<rightharpoonup> 'k model_loader"
  next_ref :: nat
  executed :: "'k query list"

text \<open>
  The dict comprehension of \<^verbatim>\<open>batch_load_fn\<close>, one parent object after the other; a
  later object with the same key replaces the earlier entry.
\<close>

fun collect_objects ::
  "'k model_loader \<Rightarrow> ('k, 'c) orm_object list \<Rightarrow> ('k \<rightharpoonup> 'c list) \<Rightarrow> error + ('k \<rightharpoonup> 'c list)" where
  "collect_objects L [] objects = Inr objects"
| "collect_objects L (parent_object # rest) objects =
     (case parent_model_object_to_key L parent_object of
        Inl e \<Rightarrow> Inl e
      | Inr k \<Rightarrow>
          (case getattr_relation parent_object (model_relation_field L) of
             Inl e \<Rightarrow> Inl e
           | Inr children \<Rightarrow> collect_objects L rest (objects(k \<mapsto> children))))"

text \<open>\<^verbatim>\<open>objects.get(object_id, [])\<close>.\<close>

definition objects_get :: "('k \<rightharpoonup> 'c list) \<Rightarrow> 'k \<Rightarrow> 'c list" where
  "objects_get objects object_id = (case objects object_id of None \<Rightarrow> [] | Some v \<Rightarrow> v)"

text \<open>
  \<^verbatim>\<open>batch_load_fn(keys)\<close>. The query is composed, restricted to the keys, and iterated
  once: that is the one place where the module runs a query, and it is logged in
  \<open>executed\<close>. The value of the resolved promise is returned.
\<close>

definition batch_load_fn ::
  "('k, 'c) env \<Rightarrow> 'k model_loader \<Rightarrow> 'k list \<Rightarrow> 'k request_state
   \<Rightarrow> (error + 'c list list) \<times> 'k request_state" where
  "batch_load_fn ev L keys s =
     (case get_query ev L of
        Inl e \<Rightarrow> (Inl e, s)
      | Inr q \<Rightarrow>
          (let query = Filter_in q (parent_model_pk_field L) keys;
               s' = s\<lparr>executed := executed s @ [query]\<rparr>
           in case run_query ev query of
                Inl e \<Rightarrow> (Inl e, s')
              | Inr parent_objects \<Rightarrow>
                  (case collect_objects L parent_objects Map.empty of
                     Inl e \<Rightarrow> (Inl e, s')
                   | Inr objects \<Rightarrow>
                       (Inr (map (\<lambda>object_id. objects_get objects object_id) keys), s'))))"

subsection \<open>The base class DataLoader\<close>

text \<open>
  Modelled from the spec: \<^verbatim>\<open>DataLoader.load\<close> of the base class
  \<^verbatim>\<open>promise.dataloader.DataLoader\<close>, which is not part of this module. The spec's
  \<^verbatim>\<open>submit(key)\<close> registers the key for the current, not yet fired batch and
  returns a handle; every submission, also of a key already submitted, has its own
  handle.
\<close>

definition load :: "'k model_loader \<Rightarrow> 'k \<Rightarrow> 'k model_loader" where
  "load L key = L\<lparr>queue := queue L @ [key]\<rparr>"

text \<open>The distinct elements of a list, in the order of their first occurrence.\<close>

fun first_occurrences :: "'a list \<Rightarrow> 'a list" where
  "first_occurrences [] = []"
| "first_occurrences (x # xs) = x # filter (\<lambda>y. y \<noteq> x) (first_occurrences xs)"

text \<open>The value delivered to the handle of a key: the one at the key's position.\<close>

definition value_for :: "'k list \<Rightarrow> 'c list list \<Rightarrow> 'k \<Rightarrow> 'c list" where
  "value_for keys vals k = (case map_of (zip keys vals) k of None \<Rightarrow> [] | Some v \<Rightarrow> v)"

text \<open>
  Modelled from the spec: the firing of a batch by the base class
  \<^verbatim>\<open>promise.dataloader.DataLoader\<close>, which is not part of this module. A loader with
  pending submissions fires once at the end of the resolution wave: it calls
  \<^verbatim>\<open>batch_load_fn\<close> once, on the distinct submitted keys in the order of their first
  submission, and resolves the handle of every submission with the value of its key;
  submissions after a fire start a new batch. The result lists, per submission, the key
  and the value delivered. The reference \<open>r\<close> is the loader that fires; a reference
  that points to no loader is reported as a \<open>Failure\<close>.
\<close>

definition dispatch_queue ::
  "('k, 'c) env \<Rightarrow> nat \<Rightarrow> 'k request_state
   \<Rightarrow> (error + ('k \<times> 'c list) list) \<times> 'k request_state" where
  "dispatch_queue ev r s =
     (case loaders s r of
        None \<Rightarrow> (Inl (Failure ''no loader at this reference''), s)
      | Some L \<Rightarrow>
          (let submitted = queue L in
           if submitted = [] then (Inr [], s)
           else
             (let keys = first_occurrences submitted;
                  s1 = s\<lparr>loaders := (loaders s)(r \<mapsto> L\<lparr>queue := []\<rparr>)\<rparr>
              in case batch_load_fn ev L keys s1 of
                   (Inl e, s2) \<Rightarrow> (Inl e, s2)
                 | (Inr vals, s2) \<Rightarrow>
                     (Inr (map (\<lambda>k. (k, value_for keys vals k)) submitted), s2))))"

subsection \<open>NestedFilterableConnectionField\<close>

definition dataloaders_field :: string where
  "dataloaders_field = ''_sqla_filter_dataloaders''"

text \<open>
  The first part of \<^verbatim>\<open>_get_or_create_data_loader\<close>: the registry in the context's
  slot, created empty when the slot is missing. A dict context is read by item, with
  \<^verbatim>\<open>KeyError\<close> caught, and the new registry is stored by item. Any other context is
  read by \<^verbatim>\<open>getattr(context, field, None)\<close>, which does not raise, and the new
  registry is stored by \<^verbatim>\<open>setattr\<close>, which raises \<^verbatim>\<open>AttributeError\<close> when the
  context rejects the attribute. A slot that is present holds a registry.
\<close>

definition context_data_loaders ::
  "'k request_state \<Rightarrow> error + (string list \<rightharpoonup> nat) \<times> 'k request_state" where
  "context_data_loaders s =
     (if ctx_is_dict s then
        (case ctx_slots s dataloaders_field of
           Some data_loaders \<Rightarrow> Inr (data_loaders, s)
         | None \<Rightarrow>
             Inr (Map.empty,
                  s\<lparr>ctx_slots := (ctx_slots s)(dataloaders_field \<mapsto> Map.empty)\<rparr>))
      else
        (case ctx_slots s dataloaders_field of
           None \<Rightarrow>
             (if ctx_accepts_setattr s
              then Inr (Map.empty,
                        s\<lparr>ctx_slots := (ctx_slots s)(dataloaders_field \<mapsto> Map.empty)\<rparr>)
              else Inl AttributeError)
         | Some data_loaders \<Rightarrow> Inr (data_loaders, s)))"

text \<open>\<^verbatim>\<open>tuple((p for p in info.path if isinstance(p, str)))\<close>.\<close>

fun string_segments :: "path_segment list \<Rightarrow> string list" where
  "string_segments [] = []"
| "string_segments (PStr p # rest) = p # string_segments rest"
| "string_segments (PInt n # rest) = string_segments rest"

definition data_loader_key :: "resolve_info \<Rightarrow> string list" where
  "data_loader_key i = string_segments (path i)"

text \<open>
  \<^verbatim>\<open>_get_or_create_data_loader(root, model, info, args)\<close>. The loader is returned by
  reference. The registry is the object stored in the context's slot, so the new entry
  is written through to the slot. When the constructor raises, the slot created before
  stays; when storing the slot raises, nothing has changed.
\<close>

definition get_or_create_data_loader ::
  "('k, 'c) env \<Rightarrow> ('k, 'c) orm_object \<Rightarrow> model_class \<Rightarrow> resolve_info
   \<Rightarrow> (string \<rightharpoonup> py_value) \<Rightarrow> 'k request_state \<Rightarrow> (error + nat) \<times> 'k request_state" where
  "get_or_create_data_loader ev root m i args s =
     (case context_data_loaders s of
        Inl e \<Rightarrow> (Inl e, s)
      | Inr (data_loaders, s1) \<Rightarrow>
          (let key = data_loader_key i in
           case data_loaders key of
             Some current_data_loader \<Rightarrow> (Inr current_data_loader, s1)
           | None \<Rightarrow>
               (case ModelLoader_init ev (obj_type root) m i args of
                  Inl e \<Rightarrow> (Inl e, s1)
                | Inr L \<Rightarrow>
                    (let r = next_ref s1 in
                     (Inr r,
                      s1\<lparr>loaders := (loaders s1)(r \<mapsto> L),
                         next_ref := Suc r,
                         ctx_slots :=
                           (ctx_slots s1)(dataloaders_field \<mapsto> data_loaders(key \<mapsto> r))\<rparr>)))))"

text \<open>
  \<^verbatim>\<open>connection_resolver(resolver, connection_type, model, root, info, **kwargs)\<close>, up to
  the handle \<^verbatim>\<open>data_loader.load(root_pk_value)\<close>: the loader's reference and the key
  submitted. (\<^verbatim>\<open>resolver\<close> is unused; \<^verbatim>\<open>connection_type\<close> goes to
  \<^verbatim>\<open>resolve_connection\<close> only, which shapes the value once the handle resolves.) A
  reference that points to no loader is reported as a \<open>Failure\<close>.
\<close>

definition connection_resolver ::
  "('k, 'c) env \<Rightarrow> model_class \<Rightarrow> ('k, 'c) orm_object \<Rightarrow> resolve_info
   \<Rightarrow> (string \<rightharpoonup> py_value) \<Rightarrow> 'k request_state
   \<Rightarrow> (error + nat \<times> 'k) \<times> 'k request_state" where
  "connection_resolver ev m root i kwargs s =
     (case get_or_create_data_loader ev root m i kwargs s of
        (Inl e, s1) \<Rightarrow> (Inl e, s1)
      | (Inr r, s1) \<Rightarrow>
          (case loaders s1 r of
             None \<Rightarrow> (Inl (Failure ''no loader at this reference''), s1)
           | Some data_loader \<Rightarrow>
               (case parent_model_object_to_key data_loader root of
                  Inl e \<Rightarrow> (Inl e, s1)
                | Inr root_pk_value \<Rightarrow>
                    (Inr (r, root_pk_value),
                     s1\<lparr>loaders := (loaders s1)(r \<mapsto> load data_loader root_pk_value)\<rparr>))))"

subsection \<open>Sequences of invocations\<close>

text \<open>One invocation of a nested field: the arguments the engine passes.\<close>

record ('k, 'c) invocation =
  inv_model :: model_class
  inv_root :: "('k, 'c) orm_object"
  inv_info :: resolve_info
  inv_kwargs :: "string \<rightharpoonup> py_value"

text \<open>Loader lookups one after the other in one request.\<close>

fun lookup_all ::
  "('k, 'c) env \<Rightarrow> ('k, 'c) invocation list \<Rightarrow> 'k request_state
   \<Rightarrow> (error + nat) list \<times> 'k request_state" where
  "lookup_all ev [] s = ([], s)"
| "lookup_all ev (v # vs) s =
     (case get_or_create_data_loader ev (inv_root v) (inv_model v) (inv_info v) (inv_kwargs v) s of
        (res, s1) \<Rightarrow> (case lookup_all ev vs s1 of (rs, s2) \<Rightarrow> (res # rs, s2)))"

text \<open>
  Modelled from the spec: one resolution wave of the resolution engine, which is not
  part of this module. Execution is single-threaded and cooperative; the engine drives
  all pending node resolutions of the wave, one after the other, before any loader
  fires.
\<close>

fun resolve_all ::
  "('k, 'c) env \<Rightarrow> ('k, 'c) invocation list \<Rightarrow> 'k request_state
   \<Rightarrow> (error + nat \<times> 'k) list \<times> 'k request_state" where
  "resolve_all ev [] s = ([], s)"
| "resolve_all ev (v # vs) s =
     (case connection_resolver ev (inv_model v) (inv_root v) (inv_info v) (inv_kwargs v) s of
        (h, s1) \<Rightarrow> (case resolve_all ev vs s1 of (hs, s2) \<Rightarrow> (h # hs, s2)))"

subsection \<open>Well-formed request states\<close>

text \<open>The registry of a request: empty as long as the slot is missing.\<close>

definition registry :: "'k request_state \<Rightarrow> (string list \<rightharpoonup> nat)" where
  "registry s = (case ctx_slots s dataloaders_field of None \<Rightarrow> Map.empty | Some d \<Rightarrow> d)"

text \<open>
  The states the module produces: every registered reference is allocated and points to
  a loader, and no loader is registered at two tree-locations.
\<close>

definition wf_state :: "'k request_state \<Rightarrow> bool" where
  "wf_state s \<longleftrightarrow>
     (\<forall>key r. registry s key = Some r \<longrightarrow> r < next_ref s \<and> loaders s r \<noteq> None) \<and>
     (\<forall>key key' r. registry s key = Some r \<longrightarrow> registry s key' = Some r \<longrightarrow> key = key')"

text \<open>
  The contexts on which the slot can be read or created: a dict, an object that has
  the slot already, and an object that accepts a new attribute.
\<close>

definition accepts_slot :: "'k request_state \<Rightarrow> bool" where
  "accepts_slot s \<longleftrightarrow>
     ctx_is_dict s \<or> ctx_slots s dataloaders_field \<noteq> None \<or> ctx_accepts_setattr s"

text \<open>
  A request at its start: no slot, no loader, no query run. Its context is a dict, or
  an object that accepts attributes.
\<close>

definition fresh_state :: "bool \<Rightarrow> 'k request_state" where
  "fresh_state is_dict =
     \<lparr> ctx_is_dict = is_dict, ctx_accepts_setattr = True, ctx_slots = Map.empty,
       loaders = Map.empty, next_ref = 0, executed = [] \<rparr>"

text \<open>
  A request at its start whose context is an object that rejects new attributes:
  \<^verbatim>\<open>None\<close>, or an instance of a class with \<^verbatim>\<open>__slots__\<close>.
\<close>

definition closed_context_state :: "'k request_state" where
  "closed_context_state =
     \<lparr> ctx_is_dict = False, ctx_accepts_setattr = False, ctx_slots = Map.empty,
       loaders = Map.empty, next_ref = 0, executed = [] \<rparr>"

text \<open>
  How a request state evolves while invocations are resolved: the registry keeps its
  entries, no query runs, references are never reused, and a registered loader changes
  only by further keys at the end of its queue.
\<close>

definition extends :: "'k request_state \<Rightarrow> 'k request_state \<Rightarrow> bool" where
  "extends s s' \<longleftrightarrow>
     registry s \<subseteq>\<^sub>m registry s' \<and> executed s' = executed s \<and> next_ref s \<le> next_ref s' \<and>
     ctx_is_dict s' = ctx_is_dict s \<and> ctx_accepts_setattr s' = ctx_accepts_setattr s \<and>
     (\<forall>key r L. registry s key = Some r \<longrightarrow> loaders s r = Some L \<longrightarrow>
        (\<exists>ks. loaders s' r = Some (L\<lparr>queue := queue L @ ks\<rparr>)))"

subsection \<open>What a batch is to return\<close>

text \<open>
  The spec of the batch loader, in its words: on fire it builds a mapping from parent
  key to its list of matched child rows, and for every submitted key with no match the
  result is an empty sequence. \<open>matched_children pk rel rows k\<close> is that list for the
  key \<open>k\<close>, read off the parent objects \<open>rows\<close> that the combined query yielded:
  the collection \<open>rel\<close> of the parent whose column \<open>pk\<close> is \<open>k\<close> (the last such parent,
  should the result repeat one).
\<close>

definition matched_children ::
  "string \<Rightarrow> string \<Rightarrow> ('k, 'c) orm_object list \<Rightarrow> 'k \<Rightarrow> 'c list" where
  "matched_children pk rel rows k =
     (case find (\<lambda>p. obj_columns p pk = Some k) (rev rows) of
        None \<Rightarrow> []
      | Some p \<Rightarrow> (case obj_relations p rel of None \<Rightarrow> [] | Some children \<Rightarrow> children))"

text \<open>
  The parent objects a query yields are instances of the parent model: each has the
  primary-key column and the relation collection the loader reads.
\<close>

definition rows_ok :: "'k model_loader \<Rightarrow> ('k, 'c) orm_object list \<Rightarrow> bool" where
  "rows_ok L rows =
     list_all (\<lambda>p. obj_columns p (parent_model_pk_field L) \<noteq> None
                 \<and> obj_relations p (model_relation_field L) \<noteq> None) rows"

subsection \<open>An example schema\<close>

text \<open>
  A user has posts and memberships. A post has one primary-key column; a membership is
  an association row whose primary key is the pair of its two columns.
\<close>

definition User :: model_class where
  "User = \<lparr> model_name = ''User'',
            class_attrs = [(''id'', Column_attr True), (''name'', Column_attr False),
                           (''posts'', Relationship_attr ''Post''),
                           (''memberships'', Relationship_attr ''Membership'')] \<rparr>"

definition Post :: model_class where
  "Post = \<lparr> model_name = ''Post'',
            class_attrs = [(''id'', Column_attr True), (''user_id'', Column_attr False)] \<rparr>"

definition Membership :: model_class where
  "Membership = \<lparr> model_name = ''Membership'',
                  class_attrs = [(''user_id'', Column_attr True),
                                 (''group_id'', Column_attr True)] \<rparr>"

text \<open>The resolve info of the field \<open>f\<close> of the \<open>n\<close>-th user of the query \<^verbatim>\<open>users\<close>.\<close>

definition user_field_info :: "string \<Rightarrow> int \<Rightarrow> resolve_info" where
  "user_field_info f n =
     \<lparr> field_name = f,
       path = [PStr ''users'', PStr ''edges'', PInt n, PStr ''node'', PStr f],
       field_ast_name = f,
       parent_type_fields = [(''posts'', [(''filters'', ''PostFilter'')]),
                             (''memberships'', [])] \<rparr>"

text \<open>A child row is the list of its fields; \<^verbatim>\<open>{id: 10}\<close> is \<open>[(''id'', 10)]\<close>.\<close>

type_synonym child_row = "(string \<times> int) list"

definition user_object :: "int \<Rightarrow> child_row list \<Rightarrow> (int, child_row) orm_object" where
  "user_object uid ps =
     \<lparr> obj_type = User, obj_columns = [''id'' \<mapsto> uid],
       obj_relations = [''posts'' \<mapsto> ps, ''memberships'' \<mapsto> []] \<rparr>"

text \<open>
  A database in which only user 2 has posts, \<^verbatim>\<open>{id: 10}\<close> and \<^verbatim>\<open>{id: 11}\<close>: every query
  yields that one parent. Names are in snake case already; a filter set adds a criterion.
\<close>

definition example_env :: "(int, child_row) env" where
  "example_env =
     \<lparr> to_snake_case = (\<lambda>name. name),
       filter_set_filter = (\<lambda>fs i q request_filters. Inr (Where fs q)),
       run_query = (\<lambda>q. Inr [user_object 2 [[(''id'', 10)], [(''id'', 11)]]]) \<rparr>"

text \<open>The same database behind a filter set that rejects every filter input.\<close>

definition failing_filter_env :: "(int, child_row) env" where
  "failing_filter_env =
     example_env\<lparr>filter_set_filter :=
                   (\<lambda>fs i q request_filters. Inl (Failure ''invalid filter''))\<rparr>"

definition posts_loader :: "(string \<rightharpoonup> py_value) \<Rightarrow> int model_loader" where
  "posts_loader args =
     \<lparr> info = user_field_info ''posts'' 0, graphql_args = args, model = Post,
       parent_model = User, parent_model_pk_field = ''id'',
       model_relation_field = ''posts'', relation = Relationship_attr ''Post'',
       queue = [] \<rparr>"

definition memberships_loader :: "int model_loader" where
  "memberships_loader =
     \<lparr> info = user_field_info ''memberships'' 0, graphql_args = Map.empty,
       model = Membership, parent_model = User, parent_model_pk_field = ''id'',
       model_relation_field = ''memberships'',
       relation = Relationship_attr ''Membership'', queue = [] \<rparr>"

text \<open>A membership row as the parent of a nested field.\<close>

definition membership_object :: "(int, child_row) orm_object" where
  "membership_object =
     \<lparr> obj_type = Membership, obj_columns = [''user_id'' \<mapsto> 1, ''group_id'' \<mapsto> 7],
       obj_relations = Map.empty \<rparr>"

text \<open>
  A request with a dict context in which the loader of \<^verbatim>\<open>users.edges.node.posts\<close>
  exists, at reference 0, with the keys \<open>ks\<close> submitted.
\<close>

definition posts_state :: "int list \<Rightarrow> int request_state" where
  "posts_state ks =
     \<lparr> ctx_is_dict = True, ctx_accepts_setattr = True,
       ctx_slots = [dataloaders_field \<mapsto> [[''users'', ''edges'', ''node'', ''posts''] \<mapsto> 0]],
       loaders = [0 \<mapsto> (posts_loader Map.empty)\<lparr>queue := ks\<rparr>],
       next_ref = 1, executed = [] \<rparr>"

text \<open>
  The nested fields \<^verbatim>\<open>posts\<close> and \<^verbatim>\<open>memberships\<close> invoked on the \<open>n\<close>-th user of the
  query, who has the id \<open>uid\<close>.
\<close>

definition posts_invocation ::
  "int \<Rightarrow> int \<Rightarrow> (string \<rightharpoonup> py_value) \<Rightarrow> (int, child_row) invocation" where
  "posts_invocation n uid kwargs =
     \<lparr> inv_model = Post, inv_root = user_object uid [],
       inv_info = user_field_info ''posts'' n, inv_kwargs = kwargs \<rparr>"

definition memberships_invocation :: "int \<Rightarrow> int \<Rightarrow> (int, child_row) invocation" where
  "memberships_invocation n uid =
     \<lparr> inv_model = Membership, inv_root = user_object uid [],
       inv_info = user_field_info ''memberships'' n, inv_kwargs = Map.empty \<rparr>"

subsection \<open>Theorems\<close>

lemmas example_defs = User_def Post_def Membership_def user_field_info_def user_object_def
  example_env_def posts_loader_def memberships_loader_def membership_object_def fresh_state_def
  failing_filter_env_def closed_context_state_def

subsubsection \<open>Loader construction and the primary key (C5, C6)\<close>

text \<open>
  C5, as the code has it. Constructing a loader raises \<open>ModelNotSupported\<close> exactly when
  the number of primary-key columns of the parent model is not 1, with that number and
  the model in the exception. The constructor then reads the relation attribute from the
  parent class, so it succeeds exactly when the parent has one primary-key column and
  has an attribute of the snake-cased field name. In the resolver, a parent type with a
  primary-key count other than 1 at a tree-location that has no loader yet gives
  \<open>ModelNotSupported\<close> with no query run, no loader stored and no key submitted;
  on a context that rejects the slot the resolver fails earlier, with \<open>AttributeError\<close>,
  and no query runs either.
\<close>

theorem loader_construction_pk_check:
  "(ModelLoader_init ev pm m i args = Inl (ModelNotSupported n nm)
      \<longleftrightarrow> length (model_pk_fields pm) \<noteq> 1 \<and> n = length (model_pk_fields pm) \<and> nm = model_name pm)
   \<and> ((\<exists>L. ModelLoader_init ev pm m i args = Inr L)
      \<longleftrightarrow> length (model_pk_fields pm) = 1
          \<and> (\<exists>a. getattr_class pm (to_snake_case ev (field_name i)) = Inr a))
   \<and> (length (model_pk_fields (obj_type root)) \<noteq> 1 \<and> registry s (data_loader_key i) = None
      \<longrightarrow> (case connection_resolver ev m root i args s of
             (h, s') \<Rightarrow>
               h = (if accepts_slot s
                    then Inl (ModelNotSupported (length (model_pk_fields (obj_type root)))
                                (model_name (obj_type root)))
                    else Inl AttributeError)
               \<and> executed s' = executed s \<and> loaders s' = loaders s
               \<and> registry s' = registry s))"
  by (auto simp: ModelLoader_init_def get_model_pk_field_name_def Let_def getattr_class_def
      connection_resolver_def get_or_create_data_loader_def context_data_loaders_def registry_def
      accepts_slot_def split: sum.splits option.splits)

theorem loader_construction_pk_check_witness:
  "length (model_pk_fields (obj_type membership_object)) = 2
   \<and> registry (fresh_state True :: int request_state)
       (data_loader_key (user_field_info ''posts'' 0)) = None
   \<and> fst (connection_resolver example_env Post membership_object (user_field_info ''posts'' 0)
            Map.empty (fresh_state True))
       = Inl (ModelNotSupported 2 ''Membership'')
   \<and> executed (snd (connection_resolver example_env Post membership_object
                      (user_field_info ''posts'' 0) Map.empty (fresh_state True))) = []"
  using loader_construction_pk_check [of example_env Membership Post
      "user_field_info ''posts'' 0" Map.empty 2 "''Membership''" membership_object
      "fresh_state True"]
  by (simp add: model_pk_fields_def Membership_def membership_object_def registry_def
      fresh_state_def accepts_slot_def split: prod.splits)

text \<open>
  C5, as stated, fails in one direction: the model \<open>User\<close> has exactly one primary-key
  column, and constructing a loader for a field \<^verbatim>\<open>groups\<close>, which \<open>User\<close> does not
  have, raises \<open>AttributeError\<close>.
\<close>

theorem loader_construction_counterexample:
  "length (model_pk_fields User) = 1 \<and>
   ModelLoader_init example_env User Post (user_field_info ''groups'' 0) Map.empty
     = Inl AttributeError"
  by (simp add: ModelLoader_init_def get_model_pk_field_name_def model_pk_fields_def
      getattr_class_def Let_def example_defs)

lemma sort_values_error: "sort_values cols = Inl e \<Longrightarrow> e = AttributeError"
  by (induction cols rule: sort_values.induct) (auto split: sum.splits)

text \<open>
  C6, as the code has it. The child model is stored in the loader and never inspected:
  the constructor fails or succeeds the same way for every child model, and it rejects
  a parent whose primary-key count is not 1. Query composition holds no primary-key
  check either: it raises \<open>ModelNotSupported\<close> only if the filter set does.
\<close>

theorem child_model_never_inspected:
  "(case ModelLoader_init ev pm m i args of
      Inl e \<Rightarrow> ModelLoader_init ev pm m' i args = Inl e
    | Inr L \<Rightarrow> ModelLoader_init ev pm m' i args = Inr (L\<lparr>model := m'\<rparr>))
   \<and> (length (model_pk_fields pm) \<noteq> 1 \<longrightarrow>
        ModelLoader_init ev pm m i args
          = Inl (ModelNotSupported (length (model_pk_fields pm)) (model_name pm)))
   \<and> ((\<forall>fs. filter_set_filter ev fs (info L) (Base_query (model L))
                (dict_get (graphql_args L) filter_arg) \<noteq> Inl (ModelNotSupported n nm))
        \<longrightarrow> get_query ev L \<noteq> Inl (ModelNotSupported n nm))"
proof (intro conjI impI)
  show "case ModelLoader_init ev pm m i args of
      Inl e \<Rightarrow> ModelLoader_init ev pm m' i args = Inl e
    | Inr L \<Rightarrow> ModelLoader_init ev pm m' i args = Inr (L\<lparr>model := m'\<rparr>)"
    by (auto simp: ModelLoader_init_def Let_def split: sum.splits)
next
  assume "length (model_pk_fields pm) \<noteq> 1"
  then show "ModelLoader_init ev pm m i args
          = Inl (ModelNotSupported (length (model_pk_fields pm)) (model_name pm))"
    by (simp add: ModelLoader_init_def get_model_pk_field_name_def Let_def)
next
  assume f: "\<forall>fs. filter_set_filter ev fs (info L) (Base_query (model L))
                (dict_get (graphql_args L) filter_arg) \<noteq> Inl (ModelNotSupported n nm)"
  show "get_query ev L \<noteq> Inl (ModelNotSupported n nm)"
  proof
    assume "get_query ev L = Inl (ModelNotSupported n nm)"
    then show False
      using f
      by (auto simp: get_query_def Let_def get_filter_set_def
          split: if_splits sum.splits option.splits dest: sort_values_error)
  qed
qed

theorem child_model_never_inspected_witness:
  "ModelLoader_init example_env User Membership (user_field_info ''memberships'' 0) Map.empty
     = Inr memberships_loader
   \<and> length (model_pk_fields Membership) \<noteq> 1
   \<and> ModelLoader_init example_env Membership Post (user_field_info ''posts'' 0) Map.empty
       = Inl (ModelNotSupported 2 ''Membership'')
   \<and> (\<forall>fs. filter_set_filter example_env fs (info memberships_loader)
              (Base_query (model memberships_loader))
              (dict_get (graphql_args memberships_loader) filter_arg)
            \<noteq> Inl (ModelNotSupported 2 ''Membership''))
   \<and> get_query example_env memberships_loader \<noteq> Inl (ModelNotSupported 2 ''Membership'')"
proof -
  have f: "\<forall>fs. filter_set_filter example_env fs (info memberships_loader)
              (Base_query (model memberships_loader))
              (dict_get (graphql_args memberships_loader) filter_arg)
            \<noteq> Inl (ModelNotSupported 2 ''Membership'')"
    by (simp add: example_env_def)
  have p: "ModelLoader_init example_env User Post (user_field_info ''memberships'' 0) Map.empty
     = Inr (memberships_loader\<lparr>model := Post\<rparr>)"
    by (simp add: ModelLoader_init_def get_model_pk_field_name_def model_pk_fields_def
        getattr_class_def Let_def example_defs)
  have n: "length (model_pk_fields Membership) \<noteq> 1"
    by (simp add: model_pk_fields_def Membership_def)
  from child_model_never_inspected [where ev = example_env and pm = User and m = Post
      and i = "user_field_info ''memberships'' 0" and args = Map.empty and m' = Membership
      and L = memberships_loader and n = 2 and nm = "''Membership''"] p f
  have a: "ModelLoader_init example_env User Membership (user_field_info ''memberships'' 0)
             Map.empty = Inr memberships_loader"
    and c: "get_query example_env memberships_loader \<noteq> Inl (ModelNotSupported 2 ''Membership'')"
    by (simp_all add: memberships_loader_def)
  from child_model_never_inspected [where ev = example_env and pm = Membership and m = Post
      and i = "user_field_info ''posts'' 0" and args = Map.empty and m' = Post
      and L = memberships_loader and n = 2 and nm = "''Membership''"] n
  have b: "ModelLoader_init example_env Membership Post (user_field_info ''posts'' 0) Map.empty
       = Inl (ModelNotSupported 2 ''Membership'')"
    by (simp add: model_pk_fields_def Membership_def)
  from a n b f c show ?thesis by blast
qed

text \<open>
  C6, as stated, fails: \<open>Membership\<close> has two primary-key columns; a loader with it as
  the child model is constructed, its query is composed, and the batch function runs
  that query.
\<close>

theorem child_pk_not_checked_counterexample:
  "length (model_pk_fields Membership) = 2 \<and>
   ModelLoader_init example_env User Membership (user_field_info ''memberships'' 0) Map.empty
     = Inr memberships_loader \<and>
   get_query example_env memberships_loader
     = Inr (Join_eager (Base_query User) Membership (Base_query Membership)
              (Relationship_attr ''Membership'') ''id'') \<and>
   executed (snd (batch_load_fn example_env memberships_loader [1, 2] (fresh_state True)))
     = [Filter_in (Join_eager (Base_query User) Membership (Base_query Membership)
                     (Relationship_attr ''Membership'') ''id'') ''id'' [1, 2]]"
  by (simp add: ModelLoader_init_def get_model_pk_field_name_def model_pk_fields_def
      getattr_class_def Let_def get_query_def dict_get_def batch_load_fn_def
      parent_model_object_to_key_def getattr_column_def getattr_relation_def objects_get_def
      example_defs)

subsubsection \<open>Optional arguments of the query composer (C9, C10)\<close>

text \<open>
  C9. When the captured arguments hold neither the filter argument nor \<^verbatim>\<open>sort\<close>, the
  composed query is the child's base query joined to the parent: no filter set is
  looked up or applied and no ordering is added. Each argument is optional on its own:
  without the filter argument the sort stage still orders the base query, and without
  \<^verbatim>\<open>sort\<close> the filter stage still refines it.
\<close>

theorem get_query_absent_arguments:
  "(graphql_args L filter_arg = None \<and> graphql_args L ''sort'' = None \<longrightarrow>
      get_query ev L
        = Inr (Join_eager (Base_query (parent_model L)) (model L) (Base_query (model L))
                 (relation L) (parent_model_pk_field L)))
   \<and> (graphql_args L filter_arg = None \<and> graphql_args L ''sort'' = Some (PyList cols)
        \<and> cols \<noteq> [] \<and> sort_values cols = Inr vs \<longrightarrow>
      get_query ev L
        = Inr (Join_eager (Base_query (parent_model L)) (model L)
                 (Order_by vs (Base_query (model L)))
                 (relation L) (parent_model_pk_field L)))
   \<and> (graphql_args L ''sort'' = None \<and> graphql_args L filter_arg = Some f \<and> truthy f
        \<and> get_filter_set (info L) = Inr fs
        \<and> filter_set_filter ev fs (info L) (Base_query (model L)) f = Inr q' \<longrightarrow>
      get_query ev L
        = Inr (Join_eager (Base_query (parent_model L)) (model L) q'
                 (relation L) (parent_model_pk_field L)))"
  by (simp add: get_query_def dict_get_def Let_def)

theorem get_query_absent_arguments_witness:
  "get_query example_env (posts_loader Map.empty)
     = Inr (Join_eager (Base_query User) Post (Base_query Post)
              (Relationship_attr ''Post'') ''id'')
   \<and> get_query example_env (posts_loader [''sort'' \<mapsto> PyList [PyEnum ''id DESC'']])
     = Inr (Join_eager (Base_query User) Post (Order_by [''id DESC''] (Base_query Post))
              (Relationship_attr ''Post'') ''id'')
   \<and> get_query example_env (posts_loader [''filters'' \<mapsto> PyDict [(''title'', PyStr ''a'')]])
     = Inr (Join_eager (Base_query User) Post (Where ''PostFilter'' (Base_query Post))
              (Relationship_attr ''Post'') ''id'')"
  using get_query_absent_arguments [of "posts_loader Map.empty" example_env]
    get_query_absent_arguments [of "posts_loader [''sort'' \<mapsto> PyList [PyEnum ''id DESC'']]"
      example_env "[PyEnum ''id DESC'']" "[''id DESC'']"]
    get_query_absent_arguments [of "posts_loader [''filters'' \<mapsto> PyDict [(''title'', PyStr ''a'')]]"
      example_env _ _ "PyDict [(''title'', PyStr ''a'')]" "''PostFilter''"
      "Where ''PostFilter'' (Base_query Post)"]
  by (simp add: filter_arg_def DEFAULT_FILTER_ARG_def get_filter_set_def example_defs)

text \<open>
  C10. A filter argument that is present but falsy gives the query composed without
  it; a \<^verbatim>\<open>sort\<close> argument that is not a list, or is the empty list, gives the query
  composed without it; with both, the composer returns the plain join and no error.
\<close>

theorem get_query_skips_falsy_arguments:
  "(\<not> truthy f \<longrightarrow>
      get_query ev (L\<lparr>graphql_args := (graphql_args L)(filter_arg \<mapsto> f)\<rparr>)
        = get_query ev (L\<lparr>graphql_args := (graphql_args L)(filter_arg := None)\<rparr>))
   \<and> (\<not> isinstance_list srt \<or> srt = PyList [] \<longrightarrow>
      get_query ev (L\<lparr>graphql_args := (graphql_args L)(''sort'' \<mapsto> srt)\<rparr>)
        = get_query ev (L\<lparr>graphql_args := (graphql_args L)(''sort'' := None)\<rparr>))
   \<and> (\<not> truthy f \<and> (\<not> isinstance_list srt \<or> srt = PyList []) \<longrightarrow>
      get_query ev (L\<lparr>graphql_args := [filter_arg \<mapsto> f, ''sort'' \<mapsto> srt]\<rparr>)
        = Inr (Join_eager (Base_query (parent_model L)) (model L) (Base_query (model L))
                 (relation L) (parent_model_pk_field L)))"
proof -
  have skip_sort: "\<not> isinstance_list srt \<or> srt = PyList [] \<Longrightarrow>
      \<not> (truthy srt \<and> isinstance_list srt)"
    by (cases srt) auto
  have c1: "\<not> truthy f \<Longrightarrow>
      get_query ev (L\<lparr>graphql_args := (graphql_args L)(filter_arg \<mapsto> f)\<rparr>)
        = get_query ev (L\<lparr>graphql_args := (graphql_args L)(filter_arg := None)\<rparr>)"
    by (simp add: get_query_def dict_get_def Let_def filter_arg_def DEFAULT_FILTER_ARG_def
        cong: sum.case_cong)
  have c2: "get_query ev (L\<lparr>graphql_args := (graphql_args L)(''sort'' \<mapsto> srt)\<rparr>)
        = get_query ev (L\<lparr>graphql_args := (graphql_args L)(''sort'' := None)\<rparr>)"
    if "\<not> isinstance_list srt \<or> srt = PyList []"
  proof (cases "truthy srt")
    case True
    with that skip_sort have "\<not> isinstance_list srt" by blast
    with True show ?thesis
      by (simp add: get_query_def dict_get_def Let_def filter_arg_def DEFAULT_FILTER_ARG_def
          cong: sum.case_cong)
  next
    case False
    then show ?thesis
      by (simp add: get_query_def dict_get_def Let_def filter_arg_def DEFAULT_FILTER_ARG_def
          cong: sum.case_cong)
  qed
  have c3: "get_query ev (L\<lparr>graphql_args := [filter_arg \<mapsto> f, ''sort'' \<mapsto> srt]\<rparr>)
        = Inr (Join_eager (Base_query (parent_model L)) (model L) (Base_query (model L))
                 (relation L) (parent_model_pk_field L))"
    if "\<not> truthy f" and "\<not> isinstance_list srt \<or> srt = PyList []"
  proof (cases "truthy srt")
    case True
    with that(2) skip_sort have "\<not> isinstance_list srt" by blast
    with True that(1) show ?thesis
      by (simp add: get_query_def dict_get_def Let_def filter_arg_def DEFAULT_FILTER_ARG_def)
  next
    case False
    with that(1) show ?thesis
      by (simp add: get_query_def dict_get_def Let_def filter_arg_def DEFAULT_FILTER_ARG_def)
  qed
  from c1 c2 c3 show ?thesis by blast
qed

theorem get_query_skips_falsy_arguments_witness:
  "\<not> truthy (PyDict []) \<and> \<not> isinstance_list (PyStr ''id'')
   \<and> get_query example_env (posts_loader [''filters'' \<mapsto> PyDict [], ''sort'' \<mapsto> PyStr ''id''])
       = Inr (Join_eager (Base_query User) Post (Base_query Post)
                (Relationship_attr ''Post'') ''id'')
   \<and> get_query example_env (posts_loader [''filters'' \<mapsto> PyDict [], ''sort'' \<mapsto> PyList []])
       = get_query example_env (posts_loader Map.empty)"
  using get_query_skips_falsy_arguments [of "PyDict []" example_env "posts_loader Map.empty"
      "PyStr ''id''"]
    get_query_skips_falsy_arguments [of "PyDict []" example_env "posts_loader Map.empty"
      "PyList []"]
    get_query_skips_falsy_arguments [of "PyDict []" example_env
      "posts_loader [''filters'' \<mapsto> PyDict []]" "PyList []"]
  by (simp add: filter_arg_def DEFAULT_FILTER_ARG_def posts_loader_def User_def Post_def)

subsubsection \<open>The value of a batch\<close>

lemma find_snoc:
  "find P (xs @ [x]) = (case find P xs of None \<Rightarrow> (if P x then Some x else None) | Some y \<Rightarrow> Some y)"
  by (induction xs) auto

lemma collect_objects_lookup:
  "rows_ok L rows \<Longrightarrow>
   \<exists>m. collect_objects L rows m0 = Inr m \<and>
       (\<forall>k. m k = (case find (\<lambda>p. obj_columns p (parent_model_pk_field L) = Some k) (rev rows) of
                     None \<Rightarrow> m0 k
                   | Some p \<Rightarrow> obj_relations p (model_relation_field L)))"
proof (induction rows arbitrary: m0)
  case Nil
  then show ?case by simp
next
  case (Cons p ps)
  from Cons.prems obtain k0 cs where
    k0: "obj_columns p (parent_model_pk_field L) = Some k0" and
    cs: "obj_relations p (model_relation_field L) = Some cs" and
    ps: "rows_ok L ps"
    by (auto simp: rows_ok_def)
  from Cons.IH [OF ps, of "m0(k0 \<mapsto> cs)"] obtain m where
    m: "collect_objects L ps (m0(k0 \<mapsto> cs)) = Inr m" and
    lk: "\<And>k. m k = (case find (\<lambda>p. obj_columns p (parent_model_pk_field L) = Some k) (rev ps) of
                     None \<Rightarrow> (m0(k0 \<mapsto> cs)) k
                   | Some p \<Rightarrow> obj_relations p (model_relation_field L))"
    by blast
  have "collect_objects L (p # ps) m0 = Inr m"
    using k0 cs m
    by (simp add: parent_model_object_to_key_def getattr_column_def getattr_relation_def)
  moreover have "m k = (case find (\<lambda>p. obj_columns p (parent_model_pk_field L) = Some k) (rev (p # ps)) of
                     None \<Rightarrow> m0 k
                   | Some p \<Rightarrow> obj_relations p (model_relation_field L))" for k
    using k0 cs by (simp add: lk find_snoc split: option.splits)
  ultimately show ?case by blast
qed

lemma batch_load_fn_value:
  assumes "get_query ev L = Inr q"
    and "run_query ev (Filter_in q (parent_model_pk_field L) keys) = Inr rows"
    and "rows_ok L rows"
  shows "batch_load_fn ev L keys s =
           (Inr (map (matched_children (parent_model_pk_field L) (model_relation_field L) rows) keys),
            s\<lparr>executed := executed s @ [Filter_in q (parent_model_pk_field L) keys]\<rparr>)"
proof -
  from collect_objects_lookup [OF assms(3), of Map.empty] obtain m where
    m: "collect_objects L rows Map.empty = Inr m" and
    lk: "\<And>k. m k = (case find (\<lambda>p. obj_columns p (parent_model_pk_field L) = Some k) (rev rows) of
                     None \<Rightarrow> None
                   | Some p \<Rightarrow> obj_relations p (model_relation_field L))"
    by blast
  have "objects_get m k = matched_children (parent_model_pk_field L) (model_relation_field L) rows k" for k
    by (simp add: objects_get_def matched_children_def lk split: option.splits)
  then show ?thesis
    using assms(1,2) m by (simp add: batch_load_fn_def Let_def)
qed

lemma matched_children_none:
  "\<forall>p\<in>set rows. obj_columns p pk \<noteq> Some k \<Longrightarrow> matched_children pk rel rows k = []"
proof -
  assume "\<forall>p\<in>set rows. obj_columns p pk \<noteq> Some k"
  then have "find (\<lambda>p. obj_columns p pk = Some k) (rev rows) = None"
    by (simp add: find_None_iff)
  then show ?thesis by (simp add: matched_children_def)
qed

lemma matched_children_unique:
  assumes "p \<in> set rows" and "obj_columns p pk = Some k"
    and "\<forall>p'\<in>set rows. obj_columns p' pk = Some k \<longrightarrow> p' = p"
    and "obj_relations p rel = Some cs"
  shows "matched_children pk rel rows k = cs"
proof -
  from assms(1,2) have "find (\<lambda>p. obj_columns p pk = Some k) (rev rows) \<noteq> None"
    by (auto simp: find_None_iff)
  then obtain p' where f: "find (\<lambda>p. obj_columns p pk = Some k) (rev rows) = Some p'"
    by blast
  then have "p' \<in> set (rev rows) \<and> obj_columns p' pk = Some k"
    unfolding find_Some_iff by (metis nth_mem)
  then have "p' \<in> set rows \<and> obj_columns p' pk = Some k"
    by simp
  with assms(3) have "p' = p" by blast
  with f assms(4) show ?thesis by (simp add: matched_children_def)
qed

lemma set_first_occurrences: "set (first_occurrences xs) = set xs"
  by (induction xs) auto

lemma distinct_first_occurrences: "distinct (first_occurrences xs)"
  by (induction xs) (auto simp: set_first_occurrences)

lemma value_for_map:
  "k \<in> set keys \<Longrightarrow> value_for keys (map f keys) k = f k"
  by (simp add: value_for_def map_of_zip_map)

lemma dispatch_queue_value:
  assumes "loaders s r = Some L" and "queue L \<noteq> []"
    and "get_query ev L = Inr q"
    and "run_query ev (Filter_in q (parent_model_pk_field L) (first_occurrences (queue L))) = Inr rows"
    and "rows_ok L rows"
  shows "dispatch_queue ev r s =
           (Inr (map (\<lambda>k. (k, matched_children (parent_model_pk_field L) (model_relation_field L) rows k))
                   (queue L)),
            s\<lparr>loaders := (loaders s)(r \<mapsto> L\<lparr>queue := []\<rparr>),
              executed := executed s
                @ [Filter_in q (parent_model_pk_field L) (first_occurrences (queue L))]\<rparr>)"
proof -
  let ?keys = "first_occurrences (queue L)"
  let ?s1 = "s\<lparr>loaders := (loaders s)(r \<mapsto> L\<lparr>queue := []\<rparr>)\<rparr>"
  have b: "batch_load_fn ev L ?keys ?s1 =
      (Inr (map (matched_children (parent_model_pk_field L) (model_relation_field L) rows) ?keys),
       ?s1\<lparr>executed := executed ?s1 @ [Filter_in q (parent_model_pk_field L) ?keys]\<rparr>)"
    by (rule batch_load_fn_value [OF assms(3,4,5)])
  have v: "map (\<lambda>k. (k, value_for ?keys
              (map (matched_children (parent_model_pk_field L) (model_relation_field L) rows) ?keys) k))
            (queue L)
         = map (\<lambda>k. (k, matched_children (parent_model_pk_field L) (model_relation_field L) rows k))
            (queue L)"
    by (rule map_cong) (simp_all add: value_for_map set_first_occurrences)
  show ?thesis
    using assms(1,2) by (simp add: dispatch_queue_def Let_def b v)
qed

subsubsection \<open>Input-to-output correspondence of the batch function (C2, C4)\<close>

text \<open>
  C2. When the composed query runs and yields the parent objects \<open>rows\<close>, the batch
  function returns one value per submitted key, in the order of the keys: the value at
  position \<open>i\<close> is the list of child rows matched for \<open>keys ! i\<close>. A key that no
  parent object carries gets the empty list, not an error; a key that exactly one
  parent object carries gets that parent's collection. The witness is the scenario of
  the spec: keys 1, 2, 3, where only key 2 has children, \<^verbatim>\<open>{id: 10}\<close> and
  \<^verbatim>\<open>{id: 11}\<close>.
\<close>

theorem batch_load_fn_correspondence:
  assumes "get_query ev L = Inr q"
    and "run_query ev (Filter_in q (parent_model_pk_field L) keys) = Inr rows"
    and "rows_ok L rows"
  shows "\<exists>res. fst (batch_load_fn ev L keys s) = Inr res
      \<and> length res = length keys
      \<and> (\<forall>i<length keys.
            res ! i = matched_children (parent_model_pk_field L) (model_relation_field L)
                        rows (keys ! i))
      \<and> (\<forall>i<length keys.
            (\<forall>p\<in>set rows. obj_columns p (parent_model_pk_field L) \<noteq> Some (keys ! i))
            \<longrightarrow> res ! i = [])
      \<and> (\<forall>i<length keys. \<forall>p\<in>set rows. \<forall>cs.
            obj_columns p (parent_model_pk_field L) = Some (keys ! i)
            \<and> (\<forall>p'\<in>set rows. obj_columns p' (parent_model_pk_field L) = Some (keys ! i)
                  \<longrightarrow> p' = p)
            \<and> obj_relations p (model_relation_field L) = Some cs
            \<longrightarrow> res ! i = cs)"
proof -
  let ?f = "matched_children (parent_model_pk_field L) (model_relation_field L) rows"
  have v: "fst (batch_load_fn ev L keys s) = Inr (map ?f keys)"
    by (simp add: batch_load_fn_value [OF assms])
  have "length (map ?f keys) = length keys"
    by simp
  moreover have "\<forall>i<length keys. map ?f keys ! i = ?f (keys ! i)"
    by simp
  moreover have "\<forall>i<length keys.
            (\<forall>p\<in>set rows. obj_columns p (parent_model_pk_field L) \<noteq> Some (keys ! i))
            \<longrightarrow> map ?f keys ! i = []"
  proof (intro allI impI)
    fix i
    assume i: "i < length keys"
      and "\<forall>p\<in>set rows. obj_columns p (parent_model_pk_field L) \<noteq> Some (keys ! i)"
    then have "?f (keys ! i) = []"
      by (rule_tac matched_children_none)
    with i show "map ?f keys ! i = []" by simp
  qed
  moreover have "\<forall>i<length keys. \<forall>p\<in>set rows. \<forall>cs.
            obj_columns p (parent_model_pk_field L) = Some (keys ! i)
            \<and> (\<forall>p'\<in>set rows. obj_columns p' (parent_model_pk_field L) = Some (keys ! i)
                  \<longrightarrow> p' = p)
            \<and> obj_relations p (model_relation_field L) = Some cs
            \<longrightarrow> map ?f keys ! i = cs"
  proof (intro allI ballI impI)
    fix i p cs
    assume i: "i < length keys" and p: "p \<in> set rows"
      and h: "obj_columns p (parent_model_pk_field L) = Some (keys ! i)
            \<and> (\<forall>p'\<in>set rows. obj_columns p' (parent_model_pk_field L) = Some (keys ! i)
                  \<longrightarrow> p' = p)
            \<and> obj_relations p (model_relation_field L) = Some cs"
    from h have "?f (keys ! i) = cs"
      using matched_children_unique [OF p, of "parent_model_pk_field L" "keys ! i"
          "model_relation_field L" cs]
      by blast
    with i show "map ?f keys ! i = cs" by simp
  qed
  ultimately show ?thesis
    using v by blast
qed

theorem batch_load_fn_correspondence_witness:
  "get_query example_env (posts_loader Map.empty)
     = Inr (Join_eager (Base_query User) Post (Base_query Post)
              (Relationship_attr ''Post'') ''id'')
   \<and> run_query example_env
       (Filter_in (Join_eager (Base_query User) Post (Base_query Post)
                     (Relationship_attr ''Post'') ''id'') ''id'' [1, 2, 3])
     = Inr [user_object 2 [[(''id'', 10)], [(''id'', 11)]]]
   \<and> rows_ok (posts_loader Map.empty) [user_object 2 [[(''id'', 10)], [(''id'', 11)]]]
   \<and> fst (batch_load_fn example_env (posts_loader Map.empty) [1, 2, 3] (fresh_state True))
     = Inr [[], [[(''id'', 10)], [(''id'', 11)]], []]"
proof -
  have q: "get_query example_env (posts_loader Map.empty)
     = Inr (Join_eager (Base_query User) Post (Base_query Post)
              (Relationship_attr ''Post'') ''id'')"
    by (simp add: get_query_def dict_get_def Let_def example_defs)
  have r': "run_query example_env
       (Filter_in (Join_eager (Base_query User) Post (Base_query Post)
                     (Relationship_attr ''Post'') ''id'') ''id'' [1, 2, 3])
     = Inr [user_object 2 [[(''id'', 10)], [(''id'', 11)]]]"
    by (simp add: example_env_def)
  have pk: "parent_model_pk_field (posts_loader Map.empty) = ''id''"
    by (simp add: posts_loader_def)
  have r: "run_query example_env
       (Filter_in (Join_eager (Base_query User) Post (Base_query Post)
                     (Relationship_attr ''Post'') ''id'')
          (parent_model_pk_field (posts_loader Map.empty)) [1, 2, 3])
     = Inr [user_object 2 [[(''id'', 10)], [(''id'', 11)]]]"
    unfolding pk by (rule r')
  have ok: "rows_ok (posts_loader Map.empty) [user_object 2 [[(''id'', 10)], [(''id'', 11)]]]"
    by (simp add: rows_ok_def posts_loader_def user_object_def)
  have m: "map (matched_children (parent_model_pk_field (posts_loader Map.empty))
                 (model_relation_field (posts_loader Map.empty))
                 [user_object 2 [[(''id'', 10)], [(''id'', 11)]]]) [1, 2, 3]
           = [[], [[(''id'', 10)], [(''id'', 11)]], []]"
    by (simp add: matched_children_def user_object_def posts_loader_def)
  have v: "fst (batch_load_fn example_env (posts_loader Map.empty) [1, 2, 3] (fresh_state True))
     = Inr [[], [[(''id'', 10)], [(''id'', 11)]], []]"
    unfolding batch_load_fn_value [OF q r ok] m by simp
  from batch_load_fn_correspondence [OF q r ok, of "fresh_state True"] q r' ok v
  show ?thesis by blast
qed

text \<open>
  C4. Within one batch, equal keys get equal values: at any two positions of the key
  list that hold the same key, the batch function returns the same value. When a
  loader fires, every submission has its own entry (its own handle) in the delivery,
  in submission order, and submissions of the same key are delivered the same content.
\<close>

theorem repeated_keys_same_result:
  "(get_query ev L = Inr q
      \<and> run_query ev (Filter_in q (parent_model_pk_field L) keys) = Inr rows
      \<and> rows_ok L rows \<longrightarrow>
    (\<exists>res. fst (batch_load_fn ev L keys s) = Inr res \<and> length res = length keys
       \<and> (\<forall>i<length keys. \<forall>j<length keys. keys ! i = keys ! j \<longrightarrow> res ! i = res ! j)))
   \<and> (loaders s r = Some L \<and> queue L \<noteq> [] \<and> get_query ev L = Inr q
      \<and> run_query ev (Filter_in q (parent_model_pk_field L) (first_occurrences (queue L)))
          = Inr rows'
      \<and> rows_ok L rows' \<longrightarrow>
    (\<exists>hs. fst (dispatch_queue ev r s) = Inr hs \<and> length hs = length (queue L)
       \<and> (\<forall>i<length hs. fst (hs ! i) = queue L ! i)
       \<and> (\<forall>i<length hs. \<forall>j<length hs.
             queue L ! i = queue L ! j \<longrightarrow> snd (hs ! i) = snd (hs ! j))))"
proof (intro conjI impI)
  assume a: "get_query ev L = Inr q
      \<and> run_query ev (Filter_in q (parent_model_pk_field L) keys) = Inr rows
      \<and> rows_ok L rows"
  let ?f = "matched_children (parent_model_pk_field L) (model_relation_field L) rows"
  have "fst (batch_load_fn ev L keys s) = Inr (map ?f keys)"
    using a by (simp add: batch_load_fn_value)
  then show "\<exists>res. fst (batch_load_fn ev L keys s) = Inr res \<and> length res = length keys
       \<and> (\<forall>i<length keys. \<forall>j<length keys. keys ! i = keys ! j \<longrightarrow> res ! i = res ! j)"
    by simp
next
  assume a: "loaders s r = Some L \<and> queue L \<noteq> [] \<and> get_query ev L = Inr q
      \<and> run_query ev (Filter_in q (parent_model_pk_field L) (first_occurrences (queue L)))
          = Inr rows'
      \<and> rows_ok L rows'"
  let ?g = "\<lambda>k. (k, matched_children (parent_model_pk_field L) (model_relation_field L) rows' k)"
  have "fst (dispatch_queue ev r s) = Inr (map ?g (queue L))"
    using a by (simp add: dispatch_queue_value)
  then show "\<exists>hs. fst (dispatch_queue ev r s) = Inr hs \<and> length hs = length (queue L)
       \<and> (\<forall>i<length hs. fst (hs ! i) = queue L ! i)
       \<and> (\<forall>i<length hs. \<forall>j<length hs.
             queue L ! i = queue L ! j \<longrightarrow> snd (hs ! i) = snd (hs ! j))"
    by simp
qed

theorem repeated_keys_same_result_witness:
  "get_query example_env (posts_loader Map.empty)
     = Inr (Join_eager (Base_query User) Post (Base_query Post)
              (Relationship_attr ''Post'') ''id'')
   \<and> rows_ok (posts_loader Map.empty) [user_object 2 [[(''id'', 10)], [(''id'', 11)]]]
   \<and> fst (batch_load_fn example_env (posts_loader Map.empty) [2, 1, 2] (fresh_state True))
     = Inr [[[(''id'', 10)], [(''id'', 11)]], [], [[(''id'', 10)], [(''id'', 11)]]]
   \<and> loaders (posts_state [2, 1, 2]) 0 = Some ((posts_loader Map.empty)\<lparr>queue := [2, 1, 2]\<rparr>)
   \<and> fst (dispatch_queue example_env 0 (posts_state [2, 1, 2]))
     = Inr [(2, [[(''id'', 10)], [(''id'', 11)]]), (1, []), (2, [[(''id'', 10)], [(''id'', 11)]])]"
proof -
  let ?q = "Join_eager (Base_query User) Post (Base_query Post) (Relationship_attr ''Post'') ''id''"
  let ?rows = "[user_object 2 [[(''id'', 10)], [(''id'', 11)]]]"
  let ?L = "posts_loader Map.empty"
  let ?L' = "(posts_loader Map.empty)\<lparr>queue := [2, 1, 2]\<rparr>"
  have q: "get_query example_env ?L = Inr ?q"
    by (simp add: get_query_def dict_get_def Let_def example_defs)
  have q': "get_query example_env ?L' = Inr ?q"
    by (simp add: get_query_def dict_get_def Let_def example_defs)
  have r: "run_query example_env (Filter_in ?q (parent_model_pk_field ?L) [2, 1, 2]) = Inr ?rows"
    by (simp add: example_env_def)
  have r': "run_query example_env
              (Filter_in ?q (parent_model_pk_field ?L') (first_occurrences (queue ?L'))) = Inr ?rows"
    by (simp add: example_env_def)
  have ok: "rows_ok ?L ?rows"
    by (simp add: rows_ok_def posts_loader_def user_object_def)
  have ok': "rows_ok ?L' ?rows"
    by (simp add: rows_ok_def posts_loader_def user_object_def)
  have l: "loaders (posts_state [2, 1, 2]) 0 = Some ?L'"
    by (simp add: posts_state_def)
  have ne: "queue ?L' \<noteq> []"
    by simp
  have m: "matched_children ''id'' ''posts'' ?rows k
             = (if k = 2 then [[(''id'', 10)], [(''id'', 11)]] else [])" for k :: int
    by (simp add: matched_children_def user_object_def)
  have pk: "parent_model_pk_field ?L = ''id''" "model_relation_field ?L = ''posts''"
     "parent_model_pk_field ?L' = ''id''" "model_relation_field ?L' = ''posts''"
     "queue ?L' = [2, 1, 2]"
    by (simp_all add: posts_loader_def)
  have v: "fst (batch_load_fn example_env ?L [2, 1, 2] (fresh_state True))
     = Inr [[[(''id'', 10)], [(''id'', 11)]], [], [[(''id'', 10)], [(''id'', 11)]]]"
    unfolding batch_load_fn_value [OF q r ok] pk by (simp add: m)
  have d: "fst (dispatch_queue example_env 0 (posts_state [2, 1, 2]))
     = Inr [(2, [[(''id'', 10)], [(''id'', 11)]]), (1, []), (2, [[(''id'', 10)], [(''id'', 11)]])]"
    unfolding dispatch_queue_value [OF l ne q' r' ok'] pk by (simp add: m)
  from repeated_keys_same_result [where ev = example_env and L = ?L and q = ?q
      and keys = "[2, 1, 2]" and rows = ?rows and s = "fresh_state True"]
    repeated_keys_same_result [where ev = example_env and L = ?L' and q = ?q
      and rows' = ?rows and s = "posts_state [2, 1, 2]" and r = 0]
    q r ok q' r' ok' ne v l d
  show ?thesis by blast
qed

subsubsection \<open>The registry and the loader store\<close>

lemma accepts_slot_registry:
  "registry s key = Some r \<Longrightarrow> accepts_slot s"
  by (auto simp: registry_def accepts_slot_def split: option.splits)

lemma context_data_loaders_eq:
  assumes "accepts_slot s"
  shows "context_data_loaders s =
     Inr (registry s, s\<lparr>ctx_slots := (ctx_slots s)(dataloaders_field \<mapsto> registry s)\<rparr>)"
proof (cases "ctx_slots s dataloaders_field")
  case None
  with assms show ?thesis
    by (auto simp: context_data_loaders_def registry_def accepts_slot_def)
next
  case (Some d)
  then have "(ctx_slots s)(dataloaders_field \<mapsto> d) = ctx_slots s"
    by (simp add: fun_upd_idem)
  with Some show ?thesis by (simp add: context_data_loaders_def registry_def)
qed

lemma context_data_loaders_rejected:
  "\<not> accepts_slot s \<Longrightarrow> context_data_loaders s = Inl AttributeError"
  by (auto simp: context_data_loaders_def accepts_slot_def)

lemma registry_slot_update [simp]:
  "registry (s\<lparr>ctx_slots := (ctx_slots s)(dataloaders_field \<mapsto> d)\<rparr>) = d"
  by (simp add: registry_def)

lemma get_or_create_rejected:
  "\<not> accepts_slot s \<Longrightarrow>
     get_or_create_data_loader ev root m i args s = (Inl AttributeError, s)"
  by (simp add: get_or_create_data_loader_def context_data_loaders_rejected)

lemma get_or_create_cases:
  "accepts_slot s \<Longrightarrow>
   get_or_create_data_loader ev root m i args s =
     (case registry s (data_loader_key i) of
        Some r \<Rightarrow> (Inr r, s\<lparr>ctx_slots := (ctx_slots s)(dataloaders_field \<mapsto> registry s)\<rparr>)
      | None \<Rightarrow>
          (case ModelLoader_init ev (obj_type root) m i args of
             Inl e \<Rightarrow> (Inl e, s\<lparr>ctx_slots := (ctx_slots s)(dataloaders_field \<mapsto> registry s)\<rparr>)
           | Inr L \<Rightarrow>
               (Inr (next_ref s),
                s\<lparr>loaders := (loaders s)(next_ref s \<mapsto> L),
                  next_ref := Suc (next_ref s),
                  ctx_slots := (ctx_slots s)(dataloaders_field \<mapsto>
                                  (registry s)(data_loader_key i \<mapsto> next_ref s))\<rparr>)))"
  by (simp add: get_or_create_data_loader_def context_data_loaders_eq Let_def
      split: option.splits sum.splits)

lemma wf_state_slot:
  "wf_state s \<Longrightarrow> wf_state (s\<lparr>ctx_slots := (ctx_slots s)(dataloaders_field \<mapsto> registry s)\<rparr>)"
  by (simp add: wf_state_def)

lemma extends_refl: "extends s s"
  unfolding extends_def
  by (intro conjI allI impI) (simp_all, rule_tac x = "[]" in exI, simp)

lemma extends_slot:
  "extends s (s\<lparr>ctx_slots := (ctx_slots s)(dataloaders_field \<mapsto> registry s)\<rparr>)"
  unfolding extends_def
  by (intro conjI allI impI) (simp_all, rule_tac x = "[]" in exI, simp)

lemma extends_trans:
  assumes "extends s1 s2" and "extends s2 s3"
  shows "extends s1 s3"
  unfolding extends_def
proof (intro conjI allI impI)
  show "registry s1 \<subseteq>\<^sub>m registry s3"
    using assms by (auto simp: extends_def intro: map_le_trans)
  show "executed s3 = executed s1" "next_ref s1 \<le> next_ref s3"
    "ctx_is_dict s3 = ctx_is_dict s1" "ctx_accepts_setattr s3 = ctx_accepts_setattr s1"
    using assms by (auto simp: extends_def)
next
  fix key r L
  assume reg: "registry s1 key = Some r" and ld: "loaders s1 r = Some L"
  from assms(1) reg ld obtain ks where
    k2: "loaders s2 r = Some (L\<lparr>queue := queue L @ ks\<rparr>)"
    unfolding extends_def by blast
  from assms(1) reg have reg2: "registry s2 key = Some r"
    unfolding extends_def map_le_def by (metis domI)
  from assms(2) reg2 k2 obtain ks' where
    "loaders s3 r = Some (L\<lparr>queue := queue L @ ks\<rparr>\<lparr>queue := queue (L\<lparr>queue := queue L @ ks\<rparr>) @ ks'\<rparr>)"
    unfolding extends_def by blast
  then have "loaders s3 r = Some (L\<lparr>queue := queue L @ (ks @ ks')\<rparr>)"
    by simp
  then show "\<exists>ks. loaders s3 r = Some (L\<lparr>queue := queue L @ ks\<rparr>)"
    by blast
qed

lemma get_or_create_found:
  assumes "registry s (data_loader_key i) = Some r"
  shows "get_or_create_data_loader ev root m i args s =
           (Inr r, s\<lparr>ctx_slots := (ctx_slots s)(dataloaders_field \<mapsto> registry s)\<rparr>)"
  using assms accepts_slot_registry [OF assms] by (simp add: get_or_create_cases)

lemma get_or_create_failed:
  assumes "accepts_slot s" and "registry s (data_loader_key i) = None"
    and "ModelLoader_init ev (obj_type root) m i args = Inl e"
  shows "get_or_create_data_loader ev root m i args s =
           (Inl e, s\<lparr>ctx_slots := (ctx_slots s)(dataloaders_field \<mapsto> registry s)\<rparr>)"
  using assms by (simp add: get_or_create_cases)

lemma get_or_create_created:
  assumes "accepts_slot s" and "registry s (data_loader_key i) = None"
    and "ModelLoader_init ev (obj_type root) m i args = Inr L"
  shows "get_or_create_data_loader ev root m i args s =
           (Inr (next_ref s),
            s\<lparr>loaders := (loaders s)(next_ref s \<mapsto> L),
              next_ref := Suc (next_ref s),
              ctx_slots := (ctx_slots s)(dataloaders_field \<mapsto>
                              (registry s)(data_loader_key i \<mapsto> next_ref s))\<rparr>)"
  using assms by (simp add: get_or_create_cases)

lemma wf_state_created:
  assumes "wf_state s" and "registry s key = None"
  shows "wf_state (s\<lparr>loaders := (loaders s)(next_ref s \<mapsto> L),
              next_ref := Suc (next_ref s),
              ctx_slots := (ctx_slots s)(dataloaders_field \<mapsto>
                              (registry s)(key \<mapsto> next_ref s))\<rparr>)"
proof -
  let ?s' = "s\<lparr>loaders := (loaders s)(next_ref s \<mapsto> L),
              next_ref := Suc (next_ref s),
              ctx_slots := (ctx_slots s)(dataloaders_field \<mapsto>
                              (registry s)(key \<mapsto> next_ref s))\<rparr>"
  have reg: "registry ?s' = (registry s)(key \<mapsto> next_ref s)"
    by (simp add: registry_def)
  have old: "r < next_ref s \<and> loaders s r \<noteq> None" if "registry s k = Some r" for k r
    using assms(1) that unfolding wf_state_def by blast
  have inj: "k = k'" if "registry s k = Some r" "registry s k' = Some r" for k k' r
    using assms(1) that unfolding wf_state_def by blast
  show ?thesis
    unfolding wf_state_def reg
  proof (intro conjI allI impI)
    fix k r
    assume "((registry s)(key \<mapsto> next_ref s)) k = Some r"
    then show "r < next_ref ?s'" "loaders ?s' r \<noteq> None"
      using old [of k r] by (auto split: if_splits)
  next
    fix k k' r
    assume "((registry s)(key \<mapsto> next_ref s)) k = Some r"
      and "((registry s)(key \<mapsto> next_ref s)) k' = Some r"
    then show "k = k'"
      using old [of k r] old [of k' r] inj [of k r k']
      by (auto split: if_splits)
  qed
qed

lemma extends_created:
  assumes "wf_state s" and "registry s key = None"
  shows "extends s (s\<lparr>loaders := (loaders s)(next_ref s \<mapsto> L),
              next_ref := Suc (next_ref s),
              ctx_slots := (ctx_slots s)(dataloaders_field \<mapsto>
                              (registry s)(key \<mapsto> next_ref s))\<rparr>)"
proof -
  have old: "r < next_ref s" if "registry s k = Some r" for k r
    using assms(1) that unfolding wf_state_def by blast
  show ?thesis
    unfolding extends_def
  proof (intro conjI allI impI)
    show "registry s \<subseteq>\<^sub>m registry (s\<lparr>loaders := (loaders s)(next_ref s \<mapsto> L),
              next_ref := Suc (next_ref s),
              ctx_slots := (ctx_slots s)(dataloaders_field \<mapsto>
                              (registry s)(key \<mapsto> next_ref s))\<rparr>)"
      using assms(2) by (auto simp: registry_def map_le_def)
  next
    fix k r L0
    assume "registry s k = Some r" and l: "loaders s r = Some L0"
    then have "r \<noteq> next_ref s" using old [of k r] by simp
    with l show "\<exists>ks. loaders (s\<lparr>loaders := (loaders s)(next_ref s \<mapsto> L),
              next_ref := Suc (next_ref s),
              ctx_slots := (ctx_slots s)(dataloaders_field \<mapsto>
                              (registry s)(key \<mapsto> next_ref s))\<rparr>) r
           = Some (L0\<lparr>queue := queue L0 @ ks\<rparr>)"
      by (intro exI [of _ "[]"]) simp
  qed simp_all
qed

lemma get_or_create_step:
  assumes wf: "wf_state s"
    and g: "get_or_create_data_loader ev root m i args s = (res, s')"
  shows "wf_state s' \<and> extends s s'
       \<and> (\<forall>r. res = Inr r \<longrightarrow> registry s' (data_loader_key i) = Some r)
       \<and> (\<forall>r. res = Inr r \<longrightarrow> registry s (data_loader_key i) = None \<longrightarrow>
            (\<exists>L. ModelLoader_init ev (obj_type root) m i args = Inr L
                 \<and> loaders s' r = Some L))"
proof (cases "accepts_slot s")
  case False
  with g have "res = Inl AttributeError" "s' = s"
    by (simp_all add: get_or_create_rejected)
  with wf show ?thesis by (simp add: extends_refl)
next
  case acc: True
  show ?thesis
  proof (cases "registry s (data_loader_key i)")
    case (Some r)
    with g wf show ?thesis
      by (auto simp: get_or_create_found wf_state_slot extends_slot)
  next
    case None
    show ?thesis
    proof (cases "ModelLoader_init ev (obj_type root) m i args")
      case (Inl e)
      with None g wf acc show ?thesis
        by (auto simp: get_or_create_failed wf_state_slot extends_slot)
    next
      case (Inr L)
      from g have s': "s' = s\<lparr>loaders := (loaders s)(next_ref s \<mapsto> L),
                next_ref := Suc (next_ref s),
                ctx_slots := (ctx_slots s)(dataloaders_field \<mapsto>
                                (registry s)(data_loader_key i \<mapsto> next_ref s))\<rparr>"
        and res: "res = Inr (next_ref s)"
        unfolding get_or_create_created [OF acc None Inr] by simp_all
      have "wf_state s'" unfolding s' by (rule wf_state_created [OF wf None])
      moreover have "extends s s'" unfolding s' by (rule extends_created [OF wf None])
      moreover have "registry s' (data_loader_key i) = Some (next_ref s)"
        unfolding s' by (simp add: registry_def)
      moreover have "loaders s' (next_ref s) = Some L"
        unfolding s' by simp
      ultimately show ?thesis
        using res Inr by simp
    qed
  qed
qed

lemma ModelLoader_init_fields:
  "ModelLoader_init ev pm m i args = Inr L \<Longrightarrow>
     queue L = [] \<and> graphql_args L = args \<and> info L = i \<and> model L = m \<and> parent_model L = pm"
  by (auto simp: ModelLoader_init_def Let_def split: sum.splits)

lemma wf_state_load:
  assumes "wf_state s" and "loaders s r = Some L"
  shows "wf_state (s\<lparr>loaders := (loaders s)(r \<mapsto> L')\<rparr>)"
  using assms unfolding wf_state_def registry_def by auto

lemma extends_load:
  assumes "loaders s r = Some L"
  shows "extends s (s\<lparr>loaders := (loaders s)(r \<mapsto> load L k)\<rparr>)"
  unfolding extends_def
proof (intro conjI allI impI)
  fix key r' L'
  assume "registry s key = Some r'" and l: "loaders s r' = Some L'"
  show "\<exists>ks. loaders (s\<lparr>loaders := (loaders s)(r \<mapsto> load L k)\<rparr>) r'
           = Some (L'\<lparr>queue := queue L' @ ks\<rparr>)"
  proof (cases "r' = r")
    case True
    with l assms have "L' = L" by simp
    with True show ?thesis
      by (intro exI [of _ "[k]"]) (simp add: load_def)
  next
    case False
    with l show ?thesis
      by (intro exI [of _ "[]"]) simp
  qed
qed (simp_all add: registry_def)

lemma connection_resolver_step:
  assumes wf: "wf_state s"
    and c: "connection_resolver ev m root i kwargs s = (h, s')"
  shows "wf_state s' \<and> extends s s'
       \<and> (\<forall>r k. h = Inr (r, k) \<longrightarrow>
            registry s' (data_loader_key i) = Some r
            \<and> (\<exists>L. loaders s' r = Some L \<and> k \<in> set (queue L)))
       \<and> (\<forall>r k. h = Inr (r, k) \<longrightarrow> registry s (data_loader_key i) = None \<longrightarrow>
            (\<exists>L. ModelLoader_init ev (obj_type root) m i kwargs = Inr L
                 \<and> loaders s' r = Some (L\<lparr>queue := [k]\<rparr>)))"
proof -
  obtain res s1 where g: "get_or_create_data_loader ev root m i kwargs s = (res, s1)"
    by (cases "get_or_create_data_loader ev root m i kwargs s")
  from get_or_create_step [OF wf g] have
    wf1: "wf_state s1" and ex1: "extends s s1"
    and reg1: "\<And>r. res = Inr r \<Longrightarrow> registry s1 (data_loader_key i) = Some r"
    and new1: "\<And>r. res = Inr r \<Longrightarrow> registry s (data_loader_key i) = None \<Longrightarrow>
            (\<exists>L. ModelLoader_init ev (obj_type root) m i kwargs = Inr L \<and> loaders s1 r = Some L)"
    by blast+
  show ?thesis
  proof (cases res)
    case (Inl e)
    with c g have "h = Inl e" "s' = s1"
      by (simp_all add: connection_resolver_def)
    with wf1 ex1 show ?thesis by simp
  next
    case (Inr r)
    from reg1 [OF Inr] wf1 obtain L where L: "loaders s1 r = Some L"
      unfolding wf_state_def by blast
    show ?thesis
    proof (cases "parent_model_object_to_key L root")
      case (Inl e)
      with c g Inr L have "h = Inl e" "s' = s1"
        by (simp_all add: connection_resolver_def)
      with wf1 ex1 show ?thesis by simp
    next
      case k: (Inr k)
      with c g Inr L have h: "h = Inr (r, k)"
        and s': "s' = s1\<lparr>loaders := (loaders s1)(r \<mapsto> load L k)\<rparr>"
        by (simp_all add: connection_resolver_def)
      have "wf_state s'" unfolding s' by (rule wf_state_load [OF wf1 L])
      moreover have "extends s s'"
        unfolding s' by (rule extends_trans [OF ex1 extends_load [OF L]])
      moreover have "registry s' (data_loader_key i) = Some r"
        unfolding s' using reg1 [OF Inr] by (simp add: registry_def)
      moreover have "loaders s' r = Some (load L k)" unfolding s' by simp
      moreover have "k \<in> set (queue (load L k))" by (simp add: load_def)
      moreover have "\<exists>L0. ModelLoader_init ev (obj_type root) m i kwargs = Inr L0
                 \<and> loaders s' r = Some (L0\<lparr>queue := [k]\<rparr>)"
        if "registry s (data_loader_key i) = None"
      proof -
        from new1 [OF Inr that] L have i: "ModelLoader_init ev (obj_type root) m i kwargs = Inr L"
          by simp
        from ModelLoader_init_fields [OF i] have "load L k = L\<lparr>queue := [k]\<rparr>"
          by (simp add: load_def)
        with i show ?thesis unfolding s' by simp
      qed
      ultimately show ?thesis using h by auto
    qed
  qed
qed

lemma extends_registry:
  "extends s s' \<Longrightarrow> registry s key = Some r \<Longrightarrow> registry s' key = Some r"
  unfolding extends_def map_le_def by (metis domI)

lemma extends_loader:
  "extends s s' \<Longrightarrow> registry s key = Some r \<Longrightarrow> loaders s r = Some L \<Longrightarrow>
     \<exists>ks. loaders s' r = Some (L\<lparr>queue := queue L @ ks\<rparr>)"
  unfolding extends_def by blast

lemma lookup_all_invariant:
  "wf_state s \<Longrightarrow> lookup_all ev vs s = (rs, s') \<Longrightarrow>
     wf_state s' \<and> extends s s' \<and> length rs = length vs
     \<and> (\<forall>a<length vs. \<forall>r. rs ! a = Inr r \<longrightarrow>
           registry s' (data_loader_key (inv_info (vs ! a))) = Some r)"
proof (induction vs arbitrary: s rs s')
  case Nil
  then show ?case by (simp add: extends_refl)
next
  case (Cons v vs)
  obtain res s1 where g: "get_or_create_data_loader ev (inv_root v) (inv_model v) (inv_info v)
      (inv_kwargs v) s = (res, s1)"
    by (cases "get_or_create_data_loader ev (inv_root v) (inv_model v) (inv_info v)
      (inv_kwargs v) s")
  obtain rs' s2 where l: "lookup_all ev vs s1 = (rs', s2)"
    by (cases "lookup_all ev vs s1")
  from Cons.prems(2) g l have rs: "rs = res # rs'" and s': "s' = s2"
    by simp_all
  from get_or_create_step [OF Cons.prems(1) g] have
    wf1: "wf_state s1" and ex1: "extends s s1"
    and reg1: "\<And>r. res = Inr r \<Longrightarrow> registry s1 (data_loader_key (inv_info v)) = Some r"
    by blast+
  from Cons.IH [OF wf1 l] have
    wf2: "wf_state s2" and ex2: "extends s1 s2" and len: "length rs' = length vs"
    and reg2: "\<And>a r. a < length vs \<Longrightarrow> rs' ! a = Inr r \<Longrightarrow>
           registry s2 (data_loader_key (inv_info (vs ! a))) = Some r"
    by blast+
  have "registry s' (data_loader_key (inv_info ((v # vs) ! a))) = Some r"
    if "a < length (v # vs)" and "rs ! a = Inr r" for a r
  proof (cases a)
    case 0
    with that rs have "res = Inr r" by simp
    from extends_registry [OF ex2 reg1 [OF this]] 0 show ?thesis
      by (simp add: s')
  next
    case (Suc a')
    with that rs reg2 [of a' r] show ?thesis by (simp add: s')
  qed
  with wf2 extends_trans [OF ex1 ex2] len show ?case
    by (simp add: rs s')
qed

lemma resolve_all_invariant:
  "wf_state s \<Longrightarrow> resolve_all ev vs s = (hs, s') \<Longrightarrow>
     wf_state s' \<and> extends s s' \<and> length hs = length vs
     \<and> (\<forall>a<length vs. \<forall>r k. hs ! a = Inr (r, k) \<longrightarrow>
           registry s' (data_loader_key (inv_info (vs ! a))) = Some r
           \<and> (\<exists>L. loaders s' r = Some L \<and> k \<in> set (queue L)))"
proof (induction vs arbitrary: s hs s')
  case Nil
  then show ?case by (simp add: extends_refl)
next
  case (Cons v vs)
  obtain h s1 where c: "connection_resolver ev (inv_model v) (inv_root v) (inv_info v)
      (inv_kwargs v) s = (h, s1)"
    by (cases "connection_resolver ev (inv_model v) (inv_root v) (inv_info v)
      (inv_kwargs v) s")
  obtain hs' s2 where l: "resolve_all ev vs s1 = (hs', s2)"
    by (cases "resolve_all ev vs s1")
  from Cons.prems(2) c l have hs: "hs = h # hs'" and s': "s' = s2"
    by simp_all
  from connection_resolver_step [OF Cons.prems(1) c] have
    wf1: "wf_state s1" and ex1: "extends s s1"
    and reg1: "\<And>r k. h = Inr (r, k) \<Longrightarrow>
            registry s1 (data_loader_key (inv_info v)) = Some r
            \<and> (\<exists>L. loaders s1 r = Some L \<and> k \<in> set (queue L))"
    by blast+
  from Cons.IH [OF wf1 l] have
    wf2: "wf_state s2" and ex2: "extends s1 s2" and len: "length hs' = length vs"
    and reg2: "\<And>a r k. a < length vs \<Longrightarrow> hs' ! a = Inr (r, k) \<Longrightarrow>
           registry s2 (data_loader_key (inv_info (vs ! a))) = Some r
           \<and> (\<exists>L. loaders s2 r = Some L \<and> k \<in> set (queue L))"
    by blast+
  have "registry s' (data_loader_key (inv_info ((v # vs) ! a))) = Some r
           \<and> (\<exists>L. loaders s' r = Some L \<and> k \<in> set (queue L))"
    if "a < length (v # vs)" and "hs ! a = Inr (r, k)" for a r k
  proof (cases a)
    case 0
    with that hs have "h = Inr (r, k)" by simp
    from reg1 [OF this] obtain L where
      r1: "registry s1 (data_loader_key (inv_info v)) = Some r"
      and L: "loaders s1 r = Some L" and k: "k \<in> set (queue L)"
      by blast
    from extends_loader [OF ex2 r1 L] obtain ks where
      "loaders s2 r = Some (L\<lparr>queue := queue L @ ks\<rparr>)" by blast
    with k extends_registry [OF ex2 r1] 0 show ?thesis
      by (simp add: s')
  next
    case (Suc a')
    with that hs reg2 [of a' r k] show ?thesis by (simp add: s')
  qed
  with wf2 extends_trans [OF ex1 ex2] len show ?case
    by (simp add: hs s')
qed

lemma wf_state_fresh: "wf_state (fresh_state d)"
  by (simp add: wf_state_def fresh_state_def registry_def)

subsubsection \<open>One loader per tree-location (C3)\<close>

lemma string_segments_comprehension: "string_segments ps = [x. PStr x \<leftarrow> ps]"
  by (induction ps rule: string_segments.induct) simp_all

lemma data_loader_key_segments: "data_loader_key i = [x. PStr x \<leftarrow> path i]"
  by (simp add: data_loader_key_def string_segments_comprehension)

lemma posts_init:
  "ModelLoader_init example_env User Post (user_field_info ''posts'' n) args
     = Inr ((posts_loader args)\<lparr>info := user_field_info ''posts'' n\<rparr>)"
  by (simp add: ModelLoader_init_def get_model_pk_field_name_def model_pk_fields_def
      getattr_class_def Let_def example_defs)

lemma memberships_init:
  "ModelLoader_init example_env User Membership (user_field_info ''memberships'' n) Map.empty
     = Inr (memberships_loader\<lparr>info := user_field_info ''memberships'' n\<rparr>)"
  by (simp add: ModelLoader_init_def get_model_pk_field_name_def model_pk_fields_def
      getattr_class_def Let_def example_defs)

lemma example_keys:
  "data_loader_key (user_field_info f n) = [''users'', ''edges'', ''node'', f]"
  by (simp add: data_loader_key_def user_field_info_def)

text \<open>
  C3. Take any sequence of loader lookups in one request, started in a well-formed
  state, and any two of them that return a loader. They return the same loader
  (the same reference) if and only if the string segments of their paths, in order,
  are the same; the integer segments of the paths play no role. In the witness the
  field \<^verbatim>\<open>posts\<close> of the users at the list indices 0 and 1 shares the loader 0, and
  the field \<^verbatim>\<open>memberships\<close> gets the loader 1.
\<close>

theorem same_loader_iff_same_location:
  assumes "wf_state s" and "lookup_all ev vs s = (rs, s')"
    and "a < length vs" and "b < length vs"
    and "rs ! a = Inr ra" and "rs ! b = Inr rb"
  shows "ra = rb \<longleftrightarrow>
           [x. PStr x \<leftarrow> path (inv_info (vs ! a))] = [x. PStr x \<leftarrow> path (inv_info (vs ! b))]"
proof -
  from lookup_all_invariant [OF assms(1,2)] assms(3-6) have
    wf': "wf_state s'"
    and ka: "registry s' (data_loader_key (inv_info (vs ! a))) = Some ra"
    and kb: "registry s' (data_loader_key (inv_info (vs ! b))) = Some rb"
    by blast+
  have "ra = rb \<longleftrightarrow>
      data_loader_key (inv_info (vs ! a)) = data_loader_key (inv_info (vs ! b))"
  proof
    assume "ra = rb"
    with wf' ka kb show "data_loader_key (inv_info (vs ! a)) = data_loader_key (inv_info (vs ! b))"
      unfolding wf_state_def by blast
  next
    assume "data_loader_key (inv_info (vs ! a)) = data_loader_key (inv_info (vs ! b))"
    with ka kb show "ra = rb" by simp
  qed
  then show ?thesis
    unfolding data_loader_key_segments .
qed

theorem same_loader_iff_same_location_witness:
  "wf_state (fresh_state True :: int request_state)
   \<and> fst (lookup_all example_env
            [posts_invocation 0 1 Map.empty, posts_invocation 1 2 Map.empty,
             memberships_invocation 0 1]
            (fresh_state True))
     = [Inr 0, Inr 0, Inr 1]
   \<and> path (inv_info (posts_invocation 0 1 Map.empty))
     = [PStr ''users'', PStr ''edges'', PInt 0, PStr ''node'', PStr ''posts'']
   \<and> path (inv_info (posts_invocation 1 2 Map.empty))
     = [PStr ''users'', PStr ''edges'', PInt 1, PStr ''node'', PStr ''posts'']
   \<and> path (inv_info (memberships_invocation 0 1))
     = [PStr ''users'', PStr ''edges'', PInt 0, PStr ''node'', PStr ''memberships'']"
proof -
  let ?vs = "[posts_invocation 0 1 Map.empty, posts_invocation 1 2 Map.empty,
             memberships_invocation 0 1]"
  have l: "fst (lookup_all example_env ?vs (fresh_state True)) = [Inr 0, Inr 0, Inr 1]"
    by (simp add: get_or_create_cases posts_init memberships_init example_keys
        posts_invocation_def memberships_invocation_def user_object_def fresh_state_def
        registry_def accepts_slot_def split: prod.splits)
  obtain rs s' where r: "lookup_all example_env ?vs (fresh_state True) = (rs, s')"
    by (cases "lookup_all example_env ?vs (fresh_state True)")
  with l have rs: "rs = [Inr 0, Inr 0, Inr 1]" by simp
  have p: "path (inv_info (posts_invocation 0 1 Map.empty))
     = [PStr ''users'', PStr ''edges'', PInt 0, PStr ''node'', PStr ''posts'']"
    "path (inv_info (posts_invocation 1 2 Map.empty))
     = [PStr ''users'', PStr ''edges'', PInt 1, PStr ''node'', PStr ''posts'']"
    "path (inv_info (memberships_invocation 0 1))
     = [PStr ''users'', PStr ''edges'', PInt 0, PStr ''node'', PStr ''memberships'']"
    by (simp_all add: posts_invocation_def memberships_invocation_def user_field_info_def)
  from same_loader_iff_same_location [OF wf_state_fresh r, of 0 1 0 0]
    same_loader_iff_same_location [OF wf_state_fresh r, of 0 2 0 1]
    wf_state_fresh [of True] l p
  show ?thesis by (simp add: rs)
qed

subsubsection \<open>The slot of the request context (C7)\<close>

lemma get_or_create_slot:
  assumes "accepts_slot s"
    and "get_or_create_data_loader ev root m i args s = (res, s')"
  shows "ctx_slots s' dataloaders_field = Some (registry s')
       \<and> registry s \<subseteq>\<^sub>m registry s'
       \<and> ctx_is_dict s' = ctx_is_dict s
       \<and> (\<forall>e. res = Inl e \<longrightarrow> ModelLoader_init ev (obj_type root) m i args = Inl e)
       \<and> (\<forall>r. res = Inr r \<longrightarrow> registry s' (data_loader_key i) = Some r)"
proof (cases "registry s (data_loader_key i)")
  case (Some r)
  with assms show ?thesis
    by (auto simp: get_or_create_found)
next
  case None
  show ?thesis
  proof (cases "ModelLoader_init ev (obj_type root) m i args")
    case (Inl e)
    with None assms show ?thesis
      by (auto simp: get_or_create_failed)
  next
    case (Inr L)
    from assms(2) have s': "s' = s\<lparr>loaders := (loaders s)(next_ref s \<mapsto> L),
              next_ref := Suc (next_ref s),
              ctx_slots := (ctx_slots s)(dataloaders_field \<mapsto>
                              (registry s)(data_loader_key i \<mapsto> next_ref s))\<rparr>"
      and res: "res = Inr (next_ref s)"
      unfolding get_or_create_created [OF assms(1) None Inr] by simp_all
    have reg: "registry s' = (registry s)(data_loader_key i \<mapsto> next_ref s)"
      unfolding s' by (simp add: registry_def)
    have "ctx_slots s' dataloaders_field = Some (registry s')"
      unfolding reg unfolding s' by simp
    moreover have "registry s \<subseteq>\<^sub>m registry s'"
      unfolding reg using None by (auto simp: map_le_def)
    moreover have "ctx_is_dict s' = ctx_is_dict s"
      unfolding s' by simp
    ultimately show ?thesis
      using res reg by simp
  qed
qed

lemma accepts_slot_present:
  "ctx_slots s dataloaders_field = Some d \<Longrightarrow> accepts_slot s"
  by (simp add: accepts_slot_def)

lemma lookup_all_slot:
  "accepts_slot s \<Longrightarrow> lookup_all ev vs s = (rs, s') \<Longrightarrow>
     length rs = length vs
     \<and> registry s \<subseteq>\<^sub>m registry s'
     \<and> ctx_is_dict s' = ctx_is_dict s
     \<and> (vs \<noteq> [] \<longrightarrow> ctx_slots s' dataloaders_field = Some (registry s'))
     \<and> (\<forall>a<length vs. \<forall>e. rs ! a = Inl e \<longrightarrow>
           ModelLoader_init ev (obj_type (inv_root (vs ! a))) (inv_model (vs ! a))
             (inv_info (vs ! a)) (inv_kwargs (vs ! a)) = Inl e)
     \<and> (\<forall>a<length vs. \<forall>r. rs ! a = Inr r \<longrightarrow>
           registry s' (data_loader_key (inv_info (vs ! a))) = Some r)"
proof (induction vs arbitrary: s rs s')
  case Nil
  then show ?case by simp
next
  case (Cons v vs)
  obtain res s1 where g: "get_or_create_data_loader ev (inv_root v) (inv_model v) (inv_info v)
      (inv_kwargs v) s = (res, s1)"
    by (cases "get_or_create_data_loader ev (inv_root v) (inv_model v) (inv_info v)
      (inv_kwargs v) s")
  obtain rs' s2 where l: "lookup_all ev vs s1 = (rs', s2)"
    by (cases "lookup_all ev vs s1")
  from Cons.prems(2) g l have rs: "rs = res # rs'" and s': "s' = s2"
    by simp_all
  from get_or_create_slot [OF Cons.prems(1) g] have
    slot1: "ctx_slots s1 dataloaders_field = Some (registry s1)"
    and le1: "registry s \<subseteq>\<^sub>m registry s1"
    and d1: "ctx_is_dict s1 = ctx_is_dict s"
    and err1: "\<And>e. res = Inl e \<Longrightarrow> ModelLoader_init ev (obj_type (inv_root v)) (inv_model v)
             (inv_info v) (inv_kwargs v) = Inl e"
    and reg1: "\<And>r. res = Inr r \<Longrightarrow> registry s1 (data_loader_key (inv_info v)) = Some r"
    by blast+
  from Cons.IH [OF accepts_slot_present [OF slot1] l] have
    len: "length rs' = length vs"
    and le2: "registry s1 \<subseteq>\<^sub>m registry s2"
    and d2: "ctx_is_dict s2 = ctx_is_dict s1"
    and slot2: "vs \<noteq> [] \<Longrightarrow> ctx_slots s2 dataloaders_field = Some (registry s2)"
    and err2: "\<And>a e. a < length vs \<Longrightarrow> rs' ! a = Inl e \<Longrightarrow>
           ModelLoader_init ev (obj_type (inv_root (vs ! a))) (inv_model (vs ! a))
             (inv_info (vs ! a)) (inv_kwargs (vs ! a)) = Inl e"
    and reg2: "\<And>a r. a < length vs \<Longrightarrow> rs' ! a = Inr r \<Longrightarrow>
           registry s2 (data_loader_key (inv_info (vs ! a))) = Some r"
    by blast+
  have slot: "ctx_slots s' dataloaders_field = Some (registry s')"
  proof (cases vs)
    case Nil
    with l have "s2 = s1" by simp
    with slot1 show ?thesis by (simp add: s')
  next
    case (Cons w ws)
    with slot2 show ?thesis by (simp add: s')
  qed
  have err: "ModelLoader_init ev (obj_type (inv_root ((v # vs) ! a))) (inv_model ((v # vs) ! a))
             (inv_info ((v # vs) ! a)) (inv_kwargs ((v # vs) ! a)) = Inl e"
    if "a < length (v # vs)" and "rs ! a = Inl e" for a e
    using that rs err1 [of e] err2 by (cases a) simp_all
  have reg: "registry s' (data_loader_key (inv_info ((v # vs) ! a))) = Some r"
    if "a < length (v # vs)" and "rs ! a = Inr r" for a r
  proof (cases a)
    case 0
    with that rs have "res = Inr r" by simp
    from reg1 [OF this] le2 0 show ?thesis
      unfolding s' map_le_def by (metis domI nth_Cons_0)
  next
    case (Suc a')
    with that rs reg2 [of a' r] show ?thesis by (simp add: s')
  qed
  from len map_le_trans [OF le1 le2] d1 d2 slot err reg show ?case
    by (simp add: rs s')
qed

text \<open>
  C7, as the code has it. Take a request state whose context is a dict, or an object
  that has the slot or accepts a new attribute, and any non-empty sequence of loader
  lookups. Afterwards the slot exists and holds the registry; every entry the registry
  had before is still there, so later lookups reuse the slot the first one found or
  created; every loader returned is registered in it; and the only errors are those
  the loader constructor raised. On an object context that has no slot and rejects a
  new attribute, the lookup raises \<open>AttributeError\<close> and changes nothing. The witness
  runs two lookups from a fresh dict context and from a fresh object context, and one
  on a context that rejects attributes.
\<close>

theorem registry_slot_either_shape:
  "(accepts_slot s \<and> lookup_all ev (v # vs) s = (rs, s') \<longrightarrow>
      ctx_slots s' dataloaders_field = Some (registry s')
      \<and> registry s \<subseteq>\<^sub>m registry s'
      \<and> ctx_is_dict s' = ctx_is_dict s
      \<and> length rs = Suc (length vs)
      \<and> (\<forall>a<length rs. \<forall>e. rs ! a = Inl e \<longrightarrow>
            ModelLoader_init ev (obj_type (inv_root ((v # vs) ! a))) (inv_model ((v # vs) ! a))
              (inv_info ((v # vs) ! a)) (inv_kwargs ((v # vs) ! a)) = Inl e)
      \<and> (\<forall>a<length rs. \<forall>r. rs ! a = Inr r \<longrightarrow>
            registry s' (data_loader_key (inv_info ((v # vs) ! a))) = Some r))
   \<and> (\<not> accepts_slot s \<longrightarrow>
        get_or_create_data_loader ev root m i args s = (Inl AttributeError, s))"
proof (rule conjI)
  show "accepts_slot s \<and> lookup_all ev (v # vs) s = (rs, s') \<longrightarrow>
      ctx_slots s' dataloaders_field = Some (registry s')
      \<and> registry s \<subseteq>\<^sub>m registry s'
      \<and> ctx_is_dict s' = ctx_is_dict s
      \<and> length rs = Suc (length vs)
      \<and> (\<forall>a<length rs. \<forall>e. rs ! a = Inl e \<longrightarrow>
            ModelLoader_init ev (obj_type (inv_root ((v # vs) ! a))) (inv_model ((v # vs) ! a))
              (inv_info ((v # vs) ! a)) (inv_kwargs ((v # vs) ! a)) = Inl e)
      \<and> (\<forall>a<length rs. \<forall>r. rs ! a = Inr r \<longrightarrow>
            registry s' (data_loader_key (inv_info ((v # vs) ! a))) = Some r)"
  proof (rule impI)
    assume "accepts_slot s \<and> lookup_all ev (v # vs) s = (rs, s')"
    then have a: "accepts_slot s" and l: "lookup_all ev (v # vs) s = (rs, s')"
      by simp_all
    from lookup_all_slot [OF a l]
    show "ctx_slots s' dataloaders_field = Some (registry s')
      \<and> registry s \<subseteq>\<^sub>m registry s'
      \<and> ctx_is_dict s' = ctx_is_dict s
      \<and> length rs = Suc (length vs)
      \<and> (\<forall>a<length rs. \<forall>e. rs ! a = Inl e \<longrightarrow>
            ModelLoader_init ev (obj_type (inv_root ((v # vs) ! a))) (inv_model ((v # vs) ! a))
              (inv_info ((v # vs) ! a)) (inv_kwargs ((v # vs) ! a)) = Inl e)
      \<and> (\<forall>a<length rs. \<forall>r. rs ! a = Inr r \<longrightarrow>
            registry s' (data_loader_key (inv_info ((v # vs) ! a))) = Some r)"
      by simp
  qed
next
  show "\<not> accepts_slot s \<longrightarrow>
        get_or_create_data_loader ev root m i args s = (Inl AttributeError, s)"
    by (simp add: get_or_create_rejected)
qed

theorem registry_slot_either_shape_witness:
  "accepts_slot (fresh_state True :: int request_state)
   \<and> accepts_slot (fresh_state False :: int request_state)
   \<and> ctx_slots (fresh_state True :: int request_state) dataloaders_field = None
   \<and> ctx_slots (fresh_state False :: int request_state) dataloaders_field = None
   \<and> fst (lookup_all example_env
            [posts_invocation 0 1 Map.empty, posts_invocation 1 2 Map.empty] (fresh_state True))
     = [Inr 0, Inr 0]
   \<and> ctx_slots (snd (lookup_all example_env
            [posts_invocation 0 1 Map.empty, posts_invocation 1 2 Map.empty] (fresh_state True)))
         dataloaders_field
     = Some [[''users'', ''edges'', ''node'', ''posts''] \<mapsto> 0]
   \<and> fst (lookup_all example_env
            [posts_invocation 0 1 Map.empty, posts_invocation 1 2 Map.empty] (fresh_state False))
     = [Inr 0, Inr 0]
   \<and> ctx_slots (snd (lookup_all example_env
            [posts_invocation 0 1 Map.empty, posts_invocation 1 2 Map.empty] (fresh_state False)))
         dataloaders_field
     = Some [[''users'', ''edges'', ''node'', ''posts''] \<mapsto> 0]
   \<and> \<not> accepts_slot (closed_context_state :: int request_state)
   \<and> get_or_create_data_loader example_env (user_object 1 []) Post
        (user_field_info ''posts'' 0) Map.empty closed_context_state
      = (Inl AttributeError, closed_context_state)"
proof -
  let ?vs = "[posts_invocation 1 2 Map.empty]"
  let ?v = "posts_invocation 0 1 Map.empty"
  have l: "lookup_all example_env (?v # ?vs) (fresh_state d)
     = ([Inr 0, Inr 0],
        \<lparr> ctx_is_dict = d, ctx_accepts_setattr = True,
          ctx_slots = [dataloaders_field \<mapsto> [[''users'', ''edges'', ''node'', ''posts''] \<mapsto> 0]],
          loaders = [0 \<mapsto> posts_loader Map.empty], next_ref = Suc 0,
          executed = ([] :: int query list) \<rparr>)" for d
    by (simp add: get_or_create_cases posts_init example_keys
        posts_invocation_def user_object_def fresh_state_def
        registry_def posts_loader_def accepts_slot_def)
  have a: "ctx_slots (fresh_state d :: int request_state) dataloaders_field = None" for d
    by (simp add: fresh_state_def)
  have acc: "accepts_slot (fresh_state d :: int request_state)" for d
    by (simp add: accepts_slot_def fresh_state_def)
  have rej: "\<not> accepts_slot (closed_context_state :: int request_state)"
    by (simp add: accepts_slot_def closed_context_state_def)
  have lt: "fst (lookup_all example_env (?v # ?vs) (fresh_state d)) = [Inr 0, Inr 0]" for d
    unfolding l by simp
  have st: "ctx_slots (snd (lookup_all example_env (?v # ?vs) (fresh_state d))) dataloaders_field
      = Some [[''users'', ''edges'', ''node'', ''posts''] \<mapsto> 0]" for d
    unfolding l by simp
  from registry_slot_either_shape [where s = "closed_context_state :: int request_state"
      and ev = example_env and root = "user_object 1 []" and m = Post
      and i = "user_field_info ''posts'' 0" and args = Map.empty] rej
  have c: "get_or_create_data_loader example_env (user_object 1 []) Post
        (user_field_info ''posts'' 0) Map.empty closed_context_state
      = (Inl AttributeError, closed_context_state)"
    by blast
  have u: "registry (fresh_state d :: int request_state)
             \<subseteq>\<^sub>m registry (snd (lookup_all example_env (?v # ?vs) (fresh_state d)))" for d
    using registry_slot_either_shape [where s = "fresh_state d" and ev = example_env
        and v = ?v and vs = ?vs and rs = "fst (lookup_all example_env (?v # ?vs) (fresh_state d))"
        and s' = "snd (lookup_all example_env (?v # ?vs) (fresh_state d))"] acc [of d]
    by simp
  from u [of True] u [of False]
    a [of True] a [of False] acc [of True] acc [of False] rej
    lt [of True] lt [of False] st [of True] st [of False] c
  show ?thesis
    by blast
qed

text \<open>
  C7, as stated, fails on an object context that rejects new attributes, as \<^verbatim>\<open>None\<close>
  does, the context of a request that was given none: the first lookup raises
  \<open>AttributeError\<close> where the loader constructor would have succeeded, and no slot is
  created.
\<close>

theorem registry_slot_counterexample:
  "\<not> ctx_is_dict (closed_context_state :: int request_state)
   \<and> ctx_slots (closed_context_state :: int request_state) dataloaders_field = None
   \<and> get_or_create_data_loader example_env (user_object 1 []) Post
        (user_field_info ''posts'' 0) Map.empty closed_context_state
      = (Inl AttributeError, closed_context_state)
   \<and> ModelLoader_init example_env (obj_type (user_object 1 [] :: (int, child_row) orm_object))
        Post (user_field_info ''posts'' 0) Map.empty
      = Inr (posts_loader Map.empty)"
  by (simp add: get_or_create_data_loader_def context_data_loaders_def
      ModelLoader_init_def get_model_pk_field_name_def model_pk_fields_def
      getattr_class_def Let_def example_defs)

subsubsection \<open>Waves of sibling resolutions (C8, C1)\<close>

lemma get_query_queue: "get_query ev (L\<lparr>queue := ks\<rparr>) = get_query ev L"
  by (simp add: get_query_def Let_def cong: sum.case_cong if_cong)

lemma batch_load_fn_executed:
  "get_query ev L = Inr q \<Longrightarrow>
     executed (snd (batch_load_fn ev L keys s))
       = executed s @ [Filter_in q (parent_model_pk_field L) keys]"
  by (simp add: batch_load_fn_def Let_def split: sum.splits)

lemma dispatch_queue_executed:
  assumes "loaders s r = Some L" and "queue L \<noteq> []" and "get_query ev L = Inr q"
  shows "executed (snd (dispatch_queue ev r s))
           = executed s @ [Filter_in q (parent_model_pk_field L) (first_occurrences (queue L))]"
proof -
  let ?s1 = "s\<lparr>loaders := (loaders s)(r \<mapsto> L\<lparr>queue := []\<rparr>)\<rparr>"
  let ?keys = "first_occurrences (queue L)"
  have "snd (dispatch_queue ev r s) = snd (batch_load_fn ev L ?keys ?s1)"
    using assms(1,2) by (simp add: dispatch_queue_def Let_def split: prod.splits sum.splits)
  then show ?thesis
    using batch_load_fn_executed [OF assms(3), of ?keys ?s1] by simp
qed

lemma dispatch_queue_failed:
  assumes "loaders t r = Some L" and "queue L \<noteq> []" and "get_query ev L = Inl e"
  shows "dispatch_queue ev r t = (Inl e, t\<lparr>loaders := (loaders t)(r \<mapsto> L\<lparr>queue := []\<rparr>)\<rparr>)"
  using assms by (simp add: dispatch_queue_def batch_load_fn_def Let_def)

text \<open>
  C8. Let the invocation \<open>v\<close> be the first at its tree-location in a request and
  return a handle on the loader \<open>r\<close>. Whatever invocations follow, the loader \<open>r\<close>
  is the one the constructor built from the arguments of \<open>v\<close>, changed only in its
  queue; the query it composes is the query of those arguments; and every later
  invocation at the same tree-location that returns a handle, whatever arguments it
  carries, returns it on \<open>r\<close>, with its key in the queue of \<open>r\<close>. In the witness the
  second sibling asks for another sort order and the loader keeps the first one's.
\<close>

theorem loader_arguments_from_first_invocation:
  assumes "wf_state s"
    and "registry s (data_loader_key (inv_info v)) = None"
    and "resolve_all ev (v # vs) s = (Inr (r, k) # hs, s')"
  shows "\<exists>L0 ks.
      ModelLoader_init ev (obj_type (inv_root v)) (inv_model v) (inv_info v) (inv_kwargs v)
        = Inr L0
      \<and> graphql_args L0 = inv_kwargs v
      \<and> loaders s' r = Some (L0\<lparr>queue := ks\<rparr>)
      \<and> get_query ev (L0\<lparr>queue := ks\<rparr>) = get_query ev L0
      \<and> (\<forall>a<length vs.
            data_loader_key (inv_info (vs ! a)) = data_loader_key (inv_info v) \<longrightarrow>
            (\<forall>r' k'. hs ! a = Inr (r', k') \<longrightarrow> r' = r \<and> k' \<in> set ks))"
proof -
  obtain h s1 where c: "connection_resolver ev (inv_model v) (inv_root v) (inv_info v)
      (inv_kwargs v) s = (h, s1)"
    by (cases "connection_resolver ev (inv_model v) (inv_root v) (inv_info v)
      (inv_kwargs v) s")
  obtain hs' s2 where l: "resolve_all ev vs s1 = (hs', s2)"
    by (cases "resolve_all ev vs s1")
  from assms(3) c l have h: "h = Inr (r, k)" and hs: "hs' = hs" and s': "s2 = s'"
    by simp_all
  from connection_resolver_step [OF assms(1) c] h assms(2) obtain L0 where
    wf1: "wf_state s1"
    and reg1: "registry s1 (data_loader_key (inv_info v)) = Some r"
    and init: "ModelLoader_init ev (obj_type (inv_root v)) (inv_model v) (inv_info v)
                 (inv_kwargs v) = Inr L0"
    and ld1: "loaders s1 r = Some (L0\<lparr>queue := [k]\<rparr>)"
    by blast
  from resolve_all_invariant [OF wf1 l] have
    ex2: "extends s1 s2"
    and inv2: "\<And>a r' k'. a < length vs \<Longrightarrow> hs' ! a = Inr (r', k') \<Longrightarrow>
           registry s2 (data_loader_key (inv_info (vs ! a))) = Some r'
           \<and> (\<exists>L. loaders s2 r' = Some L \<and> k' \<in> set (queue L))"
    by blast+
  from extends_loader [OF ex2 reg1 ld1] obtain ks' where
    ld2: "loaders s2 r = Some (L0\<lparr>queue := k # ks'\<rparr>)"
    by auto
  have reg2: "registry s2 (data_loader_key (inv_info v)) = Some r"
    by (rule extends_registry [OF ex2 reg1])
  have "r' = r \<and> k' \<in> set (k # ks')"
    if "a < length vs"
      and "data_loader_key (inv_info (vs ! a)) = data_loader_key (inv_info v)"
      and "hs ! a = Inr (r', k')" for a r' k'
  proof -
    from inv2 [of a r' k'] that hs obtain L where
      "registry s2 (data_loader_key (inv_info v)) = Some r'"
      and L: "loaders s2 r' = Some L" and k': "k' \<in> set (queue L)"
      by auto
    with reg2 have "r' = r" by simp
    with L ld2 k' show ?thesis by auto
  qed
  with init ld2 ModelLoader_init_fields [OF init] show ?thesis
    unfolding s' [symmetric] get_query_queue by blast
qed

theorem loader_arguments_from_first_invocation_witness:
  "wf_state (fresh_state True :: int request_state)
   \<and> registry (fresh_state True :: int request_state)
         (data_loader_key (inv_info (posts_invocation 0 1 [''sort'' \<mapsto> PyList [PyEnum ''id DESC'']])))
       = None
   \<and> fst (resolve_all example_env
            [posts_invocation 0 1 [''sort'' \<mapsto> PyList [PyEnum ''id DESC'']],
             posts_invocation 1 2 [''sort'' \<mapsto> PyList [PyEnum ''id ASC'']]]
            (fresh_state True))
       = [Inr (0, 1), Inr (0, 2)]
   \<and> loaders (snd (resolve_all example_env
            [posts_invocation 0 1 [''sort'' \<mapsto> PyList [PyEnum ''id DESC'']],
             posts_invocation 1 2 [''sort'' \<mapsto> PyList [PyEnum ''id ASC'']]]
            (fresh_state True))) 0
       = Some ((posts_loader [''sort'' \<mapsto> PyList [PyEnum ''id DESC'']])\<lparr>queue := [1, 2]\<rparr>)
   \<and> get_query example_env
         ((posts_loader [''sort'' \<mapsto> PyList [PyEnum ''id DESC'']])\<lparr>queue := [1, 2]\<rparr>)
       = Inr (Join_eager (Base_query User) Post (Order_by [''id DESC''] (Base_query Post))
                (Relationship_attr ''Post'') ''id'')"
proof -
  let ?v = "posts_invocation 0 1 [''sort'' \<mapsto> PyList [PyEnum ''id DESC'']]"
  let ?vs = "[posts_invocation 1 2 [''sort'' \<mapsto> PyList [PyEnum ''id ASC'']]]"
  let ?L = "(posts_loader [''sort'' \<mapsto> PyList [PyEnum ''id DESC'']])\<lparr>queue := [1, 2]\<rparr>"
  have l: "resolve_all example_env (?v # ?vs) (fresh_state True)
     = (Inr (0, 1) # [Inr (0, 2)],
        \<lparr> ctx_is_dict = True, ctx_accepts_setattr = True,
          ctx_slots = [dataloaders_field \<mapsto> [[''users'', ''edges'', ''node'', ''posts''] \<mapsto> 0]],
          loaders = [0 \<mapsto> ?L], next_ref = Suc 0, executed = ([] :: int query list) \<rparr>)"
    by (simp add: connection_resolver_def get_or_create_cases posts_init example_keys
        posts_invocation_def user_object_def fresh_state_def registry_def accepts_slot_def
        parent_model_object_to_key_def getattr_column_def load_def posts_loader_def)
  have n: "registry (fresh_state True :: int request_state) (data_loader_key (inv_info ?v)) = None"
    by (simp add: registry_def fresh_state_def)
  have q: "get_query example_env ?L
       = Inr (Join_eager (Base_query User) Post (Order_by [''id DESC''] (Base_query Post))
                (Relationship_attr ''Post'') ''id'')"
    by (simp add: get_query_def dict_get_def Let_def filter_arg_def DEFAULT_FILTER_ARG_def
        example_defs)
  from loader_arguments_from_first_invocation [OF wf_state_fresh n l]
    wf_state_fresh [of True] n q
  show ?thesis
    unfolding l by simp
qed

lemma posts_init_failing_filter:
  "ModelLoader_init failing_filter_env User Post (user_field_info ''posts'' n) args
     = Inr ((posts_loader args)\<lparr>info := user_field_info ''posts'' n\<rparr>)"
  by (simp add: ModelLoader_init_def get_model_pk_field_name_def model_pk_fields_def
      getattr_class_def Let_def example_defs)

lemma failing_filter_wave:
  "resolve_all failing_filter_env
     [posts_invocation 0 1 [''filters'' \<mapsto> PyDict [(''title'', PyStr ''a'')]]] (fresh_state True)
   = ([Inr (0, 1)],
      \<lparr> ctx_is_dict = True, ctx_accepts_setattr = True,
        ctx_slots = [dataloaders_field \<mapsto> [[''users'', ''edges'', ''node'', ''posts''] \<mapsto> 0]],
        loaders = [0 \<mapsto> (posts_loader [''filters'' \<mapsto> PyDict [(''title'', PyStr ''a'')]])
                          \<lparr>queue := [1]\<rparr>],
        next_ref = Suc 0, executed = ([] :: int query list) \<rparr>)"
  by (simp add: connection_resolver_def get_or_create_cases posts_init_failing_filter
      example_keys posts_invocation_def user_object_def fresh_state_def registry_def
      accepts_slot_def parent_model_object_to_key_def getattr_column_def load_def
      posts_loader_def)

lemma failing_filter_query:
  "get_query failing_filter_env
     ((posts_loader [''filters'' \<mapsto> PyDict [(''title'', PyStr ''a'')]])\<lparr>queue := [1]\<rparr>)
   = Inl (Failure ''invalid filter'')"
  by (simp add: get_query_def dict_get_def Let_def filter_arg_def DEFAULT_FILTER_ARG_def
      get_filter_set_def example_defs)

text \<open>
  C1, as the code has it. Take any wave of invocations, at one tree-location or at
  several, started in a well-formed state, and in it an invocation that returns a
  handle on the loader \<open>r\<close>. Then \<open>r\<close> is the loader registered at that invocation's
  tree-location; every invocation of the wave whose path has the same string segments
  and that returns a handle returns it on \<open>r\<close>, with its key in the queue of \<open>r\<close>;
  and no query runs during the wave. When \<open>r\<close> fires with that queue, in whatever
  state, and its query composes, exactly one query is added to those run before: the
  composed query restricted to the distinct submitted keys, however many keys and
  repetitions were submitted. When composing the query raises, the batch fails with
  that error and no query runs. In the witness the fields \<^verbatim>\<open>posts\<close> and
  \<^verbatim>\<open>memberships\<close> alternate; three siblings submit the keys 1, 2 and 2 for \<^verbatim>\<open>posts\<close>,
  and one query for the keys 1, 2 runs.
\<close>

theorem one_retrieval_per_wave:
  assumes "wf_state s" and "resolve_all ev vs s = (hs, s')"
    and "a < length vs" and "hs ! a = Inr (r, k)"
  shows "\<exists>L. registry s' (data_loader_key (inv_info (vs ! a))) = Some r
      \<and> loaders s' r = Some L \<and> k \<in> set (queue L)
      \<and> (\<forall>b<length vs.
            [x. PStr x \<leftarrow> path (inv_info (vs ! b))] = [x. PStr x \<leftarrow> path (inv_info (vs ! a))]
            \<longrightarrow> (\<forall>r' k'. hs ! b = Inr (r', k') \<longrightarrow> r' = r \<and> k' \<in> set (queue L)))
      \<and> executed s' = executed s
      \<and> (\<forall>t q. loaders t r = Some L \<and> get_query ev L = Inr q \<longrightarrow>
            executed (snd (dispatch_queue ev r t))
              = executed t @ [Filter_in q (parent_model_pk_field L)
                                (first_occurrences (queue L))])
      \<and> (\<forall>t e. loaders t r = Some L \<and> get_query ev L = Inl e \<longrightarrow>
            fst (dispatch_queue ev r t) = Inl e
            \<and> executed (snd (dispatch_queue ev r t)) = executed t)"
proof -
  from resolve_all_invariant [OF assms(1,2)] have
    ex: "extends s s'"
    and inv: "\<And>b r' k'. b < length vs \<Longrightarrow> hs ! b = Inr (r', k') \<Longrightarrow>
           registry s' (data_loader_key (inv_info (vs ! b))) = Some r'
           \<and> (\<exists>L. loaders s' r' = Some L \<and> k' \<in> set (queue L))"
    by blast+
  from inv [OF assms(3,4)] obtain L where
    reg: "registry s' (data_loader_key (inv_info (vs ! a))) = Some r"
    and L: "loaders s' r = Some L" and k: "k \<in> set (queue L)"
    by blast
  have sib: "r' = r \<and> k' \<in> set (queue L)"
    if "b < length vs"
      and "[x. PStr x \<leftarrow> path (inv_info (vs ! b))] = [x. PStr x \<leftarrow> path (inv_info (vs ! a))]"
      and "hs ! b = Inr (r', k')" for b r' k'
  proof -
    from that(2) have "data_loader_key (inv_info (vs ! b)) = data_loader_key (inv_info (vs ! a))"
      by (simp add: data_loader_key_segments)
    with inv [OF that(1,3)] reg L show ?thesis by auto
  qed
  from k have ne: "queue L \<noteq> []" by auto
  have ex': "executed s' = executed s"
    using ex unfolding extends_def by simp
  have one: "executed (snd (dispatch_queue ev r t))
              = executed t @ [Filter_in q (parent_model_pk_field L)
                                (first_occurrences (queue L))]"
    if "loaders t r = Some L \<and> get_query ev L = Inr q" for t q
    using dispatch_queue_executed [of t r L ev q] ne that by simp
  have none: "fst (dispatch_queue ev r t) = Inl e
            \<and> executed (snd (dispatch_queue ev r t)) = executed t"
    if "loaders t r = Some L \<and> get_query ev L = Inl e" for t e
    using dispatch_queue_failed [of t r L ev e] ne that by simp
  from reg L k sib ex' one none show ?thesis by blast
qed

theorem one_retrieval_per_wave_witness:
  "wf_state (fresh_state True :: int request_state)
   \<and> fst (resolve_all example_env
            [posts_invocation 0 1 Map.empty, memberships_invocation 0 1,
             posts_invocation 1 2 Map.empty, posts_invocation 2 2 Map.empty]
            (fresh_state True))
       = [Inr (0, 1), Inr (1, 1), Inr (0, 2), Inr (0, 2)]
   \<and> executed (snd (resolve_all example_env
            [posts_invocation 0 1 Map.empty, memberships_invocation 0 1,
             posts_invocation 1 2 Map.empty, posts_invocation 2 2 Map.empty]
            (fresh_state True))) = []
   \<and> executed (snd (dispatch_queue example_env 0
         (snd (resolve_all example_env
            [posts_invocation 0 1 Map.empty, memberships_invocation 0 1,
             posts_invocation 1 2 Map.empty, posts_invocation 2 2 Map.empty]
            (fresh_state True)))))
       = [Filter_in (Join_eager (Base_query User) Post (Base_query Post)
                       (Relationship_attr ''Post'') ''id'') ''id'' [1, 2]]
   \<and> get_query failing_filter_env
         ((posts_loader [''filters'' \<mapsto> PyDict [(''title'', PyStr ''a'')]])\<lparr>queue := [1]\<rparr>)
       = Inl (Failure ''invalid filter'')
   \<and> executed (snd (dispatch_queue failing_filter_env 0
            (snd (resolve_all failing_filter_env
                    [posts_invocation 0 1 [''filters'' \<mapsto> PyDict [(''title'', PyStr ''a'')]]]
                    (fresh_state True)))))
     = []"
proof -
  let ?vs = "[posts_invocation 0 1 Map.empty, memberships_invocation 0 1,
             posts_invocation 1 2 Map.empty, posts_invocation 2 2 Map.empty]"
  let ?L = "(posts_loader Map.empty)\<lparr>queue := [1, 2, 2]\<rparr>"
  let ?M = "memberships_loader\<lparr>queue := [1]\<rparr>"
  let ?s' = "\<lparr> ctx_is_dict = True, ctx_accepts_setattr = True,
          ctx_slots = [dataloaders_field \<mapsto>
                         [[''users'', ''edges'', ''node'', ''posts''] \<mapsto> 0,
                          [''users'', ''edges'', ''node'', ''memberships''] \<mapsto> 1]],
          loaders = [0 \<mapsto> ?L, 1 \<mapsto> ?M], next_ref = Suc (Suc 0),
          executed = ([] :: int query list) \<rparr>"
  have l: "resolve_all example_env ?vs (fresh_state True)
     = ([Inr (0, 1), Inr (1, 1), Inr (0, 2), Inr (0, 2)], ?s')"
    by (simp add: connection_resolver_def get_or_create_cases posts_init memberships_init
        example_keys posts_invocation_def memberships_invocation_def user_object_def
        fresh_state_def registry_def accepts_slot_def
        parent_model_object_to_key_def getattr_column_def load_def posts_loader_def
        memberships_loader_def fun_upd_twist)
  have q: "get_query example_env ?L
       = Inr (Join_eager (Base_query User) Post (Base_query Post)
                (Relationship_attr ''Post'') ''id'')"
    by (simp add: get_query_def dict_get_def Let_def example_defs)
  have a0: "(0::nat) < length ?vs" by simp
  have h0: "[Inr (0, 1), Inr (1, 1), Inr (0, 2), Inr (0, 2 :: int)] ! 0
              = (Inr (0, 1) :: error + nat \<times> int)"
    by simp
  from one_retrieval_per_wave [OF wf_state_fresh l a0 h0] obtain L where
    L: "loaders ?s' 0 = Some L"
    and d: "\<And>t q. loaders t 0 = Some L \<and> get_query example_env L = Inr q \<Longrightarrow>
            executed (snd (dispatch_queue example_env 0 t))
              = executed t @ [Filter_in q (parent_model_pk_field L)
                                (first_occurrences (queue L))]"
    by blast
  from L have L0: "L = ?L" by simp
  from d [of ?s', unfolded L0, OF conjI [OF _ q]]
  have one: "executed (snd (dispatch_queue example_env 0 ?s'))
       = [Filter_in (Join_eager (Base_query User) Post (Base_query Post)
                       (Relationship_attr ''Post'') ''id'') ''id'' [1, 2]]"
    by (simp add: posts_loader_def)
  let ?F = "(posts_loader [''filters'' \<mapsto> PyDict [(''title'', PyStr ''a'')]])\<lparr>queue := [1]\<rparr>"
  let ?t = "\<lparr> ctx_is_dict = True, ctx_accepts_setattr = True,
        ctx_slots = [dataloaders_field \<mapsto> [[''users'', ''edges'', ''node'', ''posts''] \<mapsto> 0]],
        loaders = [0 \<mapsto> ?F], next_ref = Suc 0, executed = ([] :: int query list) \<rparr>"
  have f0: "(0::nat) < length [posts_invocation 0 1 [''filters'' \<mapsto> PyDict [(''title'', PyStr ''a'')]]]"
    by simp
  have fh: "[Inr (0, 1 :: int)] ! 0 = (Inr (0, 1) :: error + nat \<times> int)"
    by simp
  from one_retrieval_per_wave [OF wf_state_fresh failing_filter_wave f0 fh] obtain F where
    F: "loaders ?t 0 = Some F"
    and n: "\<And>t e. loaders t 0 = Some F \<and> get_query failing_filter_env F = Inl e \<Longrightarrow>
            executed (snd (dispatch_queue failing_filter_env 0 t)) = executed t"
    by blast
  from F have F0: "F = ?F" by simp
  from n [of ?t, unfolded F0, OF conjI [OF _ failing_filter_query]]
  have none: "executed (snd (dispatch_queue failing_filter_env 0 ?t)) = []"
    by simp
  from wf_state_fresh [of True] one none failing_filter_query show ?thesis
    unfolding l failing_filter_wave by simp
qed

text \<open>
  C1, as stated, fails when the filter set raises: one sibling submits its key, the
  loader fires, the batch fails, and no query has run.
\<close>

theorem one_retrieval_per_wave_counterexample:
  "fst (resolve_all failing_filter_env
          [posts_invocation 0 1 [''filters'' \<mapsto> PyDict [(''title'', PyStr ''a'')]]]
          (fresh_state True))
     = [Inr (0, 1)]
   \<and> fst (dispatch_queue failing_filter_env 0
            (snd (resolve_all failing_filter_env
                    [posts_invocation 0 1 [''filters'' \<mapsto> PyDict [(''title'', PyStr ''a'')]]]
                    (fresh_state True))))
     = Inl (Failure ''invalid filter'')
   \<and> executed (snd (dispatch_queue failing_filter_env 0
            (snd (resolve_all failing_filter_env
                    [posts_invocation 0 1 [''filters'' \<mapsto> PyDict [(''title'', PyStr ''a'')]]]
                    (fresh_state True)))))
     = []"
proof -
  let ?L = "(posts_loader [''filters'' \<mapsto> PyDict [(''title'', PyStr ''a'')]])\<lparr>queue := [1]\<rparr>"
  let ?t = "\<lparr> ctx_is_dict = True, ctx_accepts_setattr = True,
        ctx_slots = [dataloaders_field \<mapsto> [[''users'', ''edges'', ''node'', ''posts''] \<mapsto> 0]],
        loaders = [0 \<mapsto> ?L], next_ref = Suc 0, executed = ([] :: int query list) \<rparr>"
  have l: "loaders ?t 0 = Some ?L" by simp
  have ne: "queue ?L \<noteq> []" by simp
  show ?thesis
    unfolding failing_filter_wave
    by (simp add: dispatch_queue_failed [OF l ne failing_filter_query])
qed

end
